theory Spec2Isabelle
  imports Main "HOL-Library.Code_Target_Numeral"
begin

text \<open>
  A model of the screenshot tool of \<^verbatim>\<open>main.js\<close>, lines 1-274: the variant that runs
  all captures at once. Pure code is a function; code that awaits a collaborator takes
  what the collaborator does as an input and returns the state it leaves behind.
\<close>

section \<open>JavaScript values read from config.json\<close>

text \<open>
  The fields of a device descriptor come out of \<^verbatim>\<open>JSON.parse\<close>. The name and the
  optional user agent are only tested for truthiness, compared with nothing and spliced
  into template literals, so they are modelled as JSON scalars; \<open>JUndefined\<close> is a
  property that is missing. A number is the integer its literal in the file denotes
  (a viewport size is written as an integer). A string is the list of its code units,
  those below 256; the code treats all the others like any character that is neither
  a letter nor a digit.
\<close>

datatype jsval = JUndefined | JNull | JBool bool | JNum int | JStr string

fun truthy :: "jsval \<Rightarrow> bool" where
  "truthy JUndefined = False"
| "truthy JNull = False"
| "truthy (JBool b) = b"
| "truthy (JNum n) = (n \<noteq> 0)"
| "truthy (JStr s) = (s \<noteq> [])"

text \<open>The decimal digits of a non-negative integer.\<close>

definition digitChar :: "nat \<Rightarrow> char" where
  "digitChar d = ''0123456789'' ! (d mod 10)"

fun digitsOf :: "nat \<Rightarrow> string" where
  "digitsOf n = (if n < 10 then [digitChar n] else digitsOf (n div 10) @ [digitChar (n mod 10)])"

declare digitsOf.simps [simp del]

text \<open>
  \<^verbatim>\<open>JSON.parse\<close> turns an integer literal into the double nearest to it, ties going to
  the even significand (53 bits); from \<open>2 ^ 1024\<close> on the result is \<^verbatim>\<open>Infinity\<close>.
\<close>

fun bitLength :: "nat \<Rightarrow> nat" where
  "bitLength n = (if n = 0 then 0 else Suc (bitLength (n div 2)))"

declare bitLength.simps [simp del]

definition toDouble :: "nat \<Rightarrow> nat" where
  "toDouble v =
    (let e = bitLength v - 53; q = v div 2 ^ e; r = v mod 2 ^ e
     in if 2 * r < 2 ^ e \<or> (2 * r = 2 ^ e \<and> even q) then q * 2 ^ e else (q + 1) * 2 ^ e)"

text \<open>
  \<^verbatim>\<open>String(x)\<close> in a template literal is \<^verbatim>\<open>Number::toString\<close> of ECMAScript: with
  \<open>k\<close> as small as possible, the \<open>k\<close> digits \<open>s\<close> and the exponent \<open>n\<close> for which
  \<open>s * 10 ^ (n - k)\<close> is read back as \<open>x\<close>, the closest to \<open>x\<close> when there are several.
  Up to \<open>n = 21\<close> the digits are followed by zeros; beyond, the result is in
  exponent form. Seventeen digits always suffice. An integer up to \<open>2 ^ 53 - 1\<close> is
  a double and is printed with all of its digits.
\<close>

definition candidates :: "nat \<Rightarrow> nat \<Rightarrow> (nat \<times> nat) list" where
  "candidates x k =
    [(n, s). n \<leftarrow> [length (digitsOf x), length (digitsOf x) + 1],
             s \<leftarrow> [x div 10 ^ (n - k), x div 10 ^ (n - k) + 1],
             k \<le> n \<and> 10 ^ (k - 1) \<le> s \<and> s < 10 ^ k \<and> toDouble (s * 10 ^ (n - k)) = x]"

definition distance :: "nat \<Rightarrow> nat \<Rightarrow> nat \<times> nat \<Rightarrow> int" where
  "distance x k c = \<bar>int (snd c * 10 ^ (fst c - k)) - int x\<bar>"

fun closest :: "nat \<Rightarrow> nat \<Rightarrow> (nat \<times> nat) list \<Rightarrow> (nat \<times> nat) option" where
  "closest x k [] = None"
| "closest x k (c # cs) =
    (case closest x k cs of
       None \<Rightarrow> Some c
     | Some b \<Rightarrow>
        if distance x k c < distance x k b \<or> (distance x k c = distance x k b \<and> even (snd c))
        then Some c else Some b)"

definition shortestDigits :: "nat \<Rightarrow> (nat \<times> nat \<times> nat) option" where
  "shortestDigits x =
    (case List.find (\<lambda>k. candidates x k \<noteq> []) [1 ..< 18] of
       None \<Rightarrow> None
     | Some k \<Rightarrow> map_option (\<lambda>(n, s). (k, n, s)) (closest x k (candidates x k)))"

definition formatNumber :: "nat \<Rightarrow> nat \<Rightarrow> nat \<Rightarrow> string" where
  "formatNumber k n s =
    (if n \<le> 21 then digitsOf s @ replicate (n - k) CHR ''0''
     else (case digitsOf s of
             [] \<Rightarrow> []
           | c # cs \<Rightarrow> if cs = [] then [c] else c # CHR ''.'' # cs) @ ''e+'' @ digitsOf (n - 1))"

definition doubleToString :: "nat \<Rightarrow> string" where
  "doubleToString x =
    (if x \<ge> 2 ^ 1024 then ''Infinity''
     else case shortestDigits x of None \<Rightarrow> digitsOf x | Some (k, n, s) \<Rightarrow> formatNumber k n s)"

definition magnitudeToString :: "nat \<Rightarrow> string" where
  "magnitudeToString a = (if a \<le> 2 ^ 53 - 1 then digitsOf a else doubleToString (toDouble a))"

definition numToString :: "int \<Rightarrow> string" where
  "numToString n =
    (if n < 0 then CHR ''-'' # magnitudeToString (nat (- n)) else magnitudeToString (nat n))"

text \<open>
  A numeric field (\<open>width\<close>, \<open>height\<close>) is a number or missing: \<open>None\<close> is
  \<^verbatim>\<open>undefined\<close>. \<^verbatim>\<open>undefined <= n\<close> is false (the comparison is with NaN), and
  \<^verbatim>\<open>undefined\<close> and \<open>0\<close> are the falsy ones.
\<close>

type_synonym jsnum = "int option"

fun truthyNum :: "jsnum \<Rightarrow> bool" where
  "truthyNum None = False"
| "truthyNum (Some n) = (n \<noteq> 0)"

fun lessEq :: "jsnum \<Rightarrow> int \<Rightarrow> bool" where
  "lessEq None n = False"
| "lessEq (Some w) n = (w \<le> n)"

fun fieldToString :: "jsnum \<Rightarrow> string" where
  "fieldToString None = ''undefined''"
| "fieldToString (Some n) = numToString n"

fun toString :: "jsval \<Rightarrow> string" where
  "toString JUndefined = ''undefined''"
| "toString JNull = ''null''"
| "toString (JBool b) = (if b then ''true'' else ''false'')"
| "toString (JNum n) = numToString n"
| "toString (JStr s) = s"

record deviceSize =
  name :: jsval
  width :: jsnum
  height :: jsnum
  userAgent :: jsval

section \<open>Default user agents (main.js, lines 14-37)\<close>

definition USER_AGENTS_mobile :: string where
  "USER_AGENTS_mobile =
    ''Mozilla/5.0 (Linux; Android 13; Pixel 7) AppleWebKit/537.36 (KHTML, like Gecko) Chrome/112.0.0.0 Mobile Safari/537.36''"

definition USER_AGENTS_tablet :: string where
  "USER_AGENTS_tablet =
    ''Mozilla/5.0 (iPad; CPU OS 16_5 like Mac OS X) AppleWebKit/605.1.15 (KHTML, like Gecko) Version/16.5 Mobile/15E148 Safari/604.1''"

definition USER_AGENTS_desktop :: string where
  "USER_AGENTS_desktop =
    ''Mozilla/5.0 (Windows NT 10.0; Win64; x64) AppleWebKit/537.36 (KHTML, like Gecko) Chrome/112.0.5615.138 Safari/537.36''"

definition getDefaultUserAgent :: "jsnum \<Rightarrow> string" where
  "getDefaultUserAgent w =
    (if lessEq w 600 then USER_AGENTS_mobile
     else if lessEq w 1024 then USER_AGENTS_tablet
     else USER_AGENTS_desktop)"

text \<open>Line 47: \<^verbatim>\<open>device.userAgent || getDefaultUserAgent(device.width)\<close>.\<close>

definition userAgentToUse :: "deviceSize \<Rightarrow> jsval" where
  "userAgentToUse device =
    (if truthy (userAgent device) then userAgent device
     else JStr (getDefaultUserAgent (width device)))"

section \<open>The file name derived from a URL (main.js, lines 48-50)\<close>

text \<open>
  \<^verbatim>\<open>url.replace(/^https?:\/\//, "")\<close>: the pattern is anchored, so the only match
  starts at the first code unit. \<open>matchLiteral p s\<close> is what is left of \<open>s\<close> after
  the literal \<open>p\<close>; the optional \<open>s\<close> is greedy, and the matcher falls back to the
  branch without it.
\<close>

fun matchLiteral :: "string \<Rightarrow> string \<Rightarrow> string option" where
  "matchLiteral [] s = Some s"
| "matchLiteral (p # ps) [] = None"
| "matchLiteral (p # ps) (c # cs) = (if p = c then matchLiteral ps cs else None)"

definition matchScheme :: "string \<Rightarrow> string option" where
  "matchScheme url =
    (case matchLiteral ''http'' url of
       None \<Rightarrow> None
     | Some r \<Rightarrow>
        (case matchLiteral ''s'' r of
           None \<Rightarrow> matchLiteral ''://'' r
         | Some r' \<Rightarrow>
            (case matchLiteral ''://'' r' of
               Some t \<Rightarrow> Some t
             | None \<Rightarrow> matchLiteral ''://'' r)))"

definition replaceScheme :: "string \<Rightarrow> string" where
  "replaceScheme url = (case matchScheme url of None \<Rightarrow> url | Some t \<Rightarrow> t)"

text \<open>The character class \<^verbatim>\<open>[a-zA-Z0-9]\<close>, by code unit.\<close>

definition inRange :: "char \<Rightarrow> char \<Rightarrow> char \<Rightarrow> bool" where
  "inRange lo hi c = ((of_char lo :: nat) \<le> of_char c \<and> (of_char c :: nat) \<le> of_char hi)"

definition isAlnum :: "char \<Rightarrow> bool" where
  "isAlnum c = (inRange CHR ''a'' CHR ''z'' c \<or> inRange CHR ''A'' CHR ''Z'' c \<or> inRange CHR ''0'' CHR ''9'' c)"

text \<open>\<^verbatim>\<open>.replace(/[^a-zA-Z0-9]/g, "_")\<close>: every code unit outside the class, one by one.\<close>

fun replaceNonAlnum :: "string \<Rightarrow> string" where
  "replaceNonAlnum [] = []"
| "replaceNonAlnum (c # cs) = (if isAlnum c then c else CHR ''_'') # replaceNonAlnum cs"

definition urlFilename :: "string \<Rightarrow> string" where
  "urlFilename url = replaceNonAlnum (replaceScheme url)"

text \<open>
  The slug as the specification words it: a leading \<^verbatim>\<open>http://\<close> or \<^verbatim>\<open>https://\<close> is
  dropped, then every character that is not a letter or a digit becomes an underscore.
\<close>

definition slugSpec :: "string \<Rightarrow> string" where
  "slugSpec url =
    map (\<lambda>c. if isAlnum c then c else CHR ''_'')
      (if take 8 url = ''https://'' then drop 8 url
       else if take 7 url = ''http://'' then drop 7 url
       else url)"

section \<open>The automation layer, the file system and the calls made on them\<close>

text \<open>
  Playwright, sharp and \<^verbatim>\<open>fs\<close> are outside the program. What an awaited call of
  theirs does is an input of the model: \<open>Inr v\<close> when the promise resolves to
  \<open>v\<close>, \<open>Inl m\<close> when it rejects with an \<^verbatim>\<open>Error\<close> whose message is \<open>m\<close>
  (these libraries reject with \<^verbatim>\<open>Error\<close> objects).
\<close>

type_synonym 'a awaited = "string + 'a"

text \<open>
  The behaviour of the automation layer for one capture task. The first
  \<^verbatim>\<open>page.evaluate\<close> runs the scroll loop of lines 93-107 inside the page: it rejects,
  or the page answers each reading of \<^verbatim>\<open>document.body.scrollHeight\<close>; the answer to
  the reading of tick \<open>k\<close> is \<open>h k\<close>.
\<close>

record automation =
  newContext :: "unit awaited"
  newPage :: "unit awaited"
  goto :: "unit awaited"
  waitForSelector :: "unit awaited"
  click :: "unit awaited"
  evaluateScroll :: "(nat \<Rightarrow> int) awaited"
  evaluateScrollTo :: "unit awaited"
  waitForLoadState :: "unit awaited"
  screenshot :: "unit awaited"
  sharpToFile :: "unit awaited"
  unlink :: "unit awaited"
  contextClose :: "unit awaited"

text \<open>The calls a run makes on its collaborators, with the arguments the properties below speak of.\<close>

datatype call =
    MkdirSync string
  | Launch
  | NewContext jsnum jsnum jsval
  | NewPage
  | Goto string nat
  | WaitForSelector string nat
  | Click string
  | EvaluateAutoScroll
  | EvaluateScrollTo int int
  | WaitForLoadState nat
  | Screenshot string
  | SharpToFile string string
  | Unlink string
  | ContextClose
  | BrowserClose
  | ConsoleError "string list"
  | ProcessExit nat

text \<open>
  The state a task works on: the paths that exist, and the calls made so far.
  A step ends in one of three ways: it resolves, it throws, or it never settles.
\<close>

record io =
  files :: "string set"
  calls :: "call list"

datatype 'a completion = Resolved 'a | Thrown string | Pending

type_synonym 'a step = "io \<Rightarrow> 'a completion \<times> io"

definition andThen :: "'a step \<Rightarrow> ('a \<Rightarrow> 'b step) \<Rightarrow> 'b step" where
  "andThen m f s =
    (case m s of
       (Resolved v, s') \<Rightarrow> f v s'
     | (Thrown e, s') \<Rightarrow> (Thrown e, s')
     | (Pending, s') \<Rightarrow> (Pending, s'))"

definition resolve :: "'a \<Rightarrow> 'a step" where
  "resolve v s = (Resolved v, s)"

definition await :: "call \<Rightarrow> 'a awaited \<Rightarrow> 'a step" where
  "await c r s =
    (case r of
       Inl e \<Rightarrow> (Thrown e, s\<lparr>calls := calls s @ [c]\<rparr>)
     | Inr v \<Rightarrow> (Resolved v, s\<lparr>calls := calls s @ [c]\<rparr>))"

definition writeFile :: "string \<Rightarrow> unit step" where
  "writeFile p s = (Resolved (), s\<lparr>files := insert p (files s)\<rparr>)"

definition removeFile :: "string \<Rightarrow> unit step" where
  "removeFile p s = (Resolved (), s\<lparr>files := files s - {p}\<rparr>)"

section \<open>The scroll loop (main.js, lines 93-107)\<close>

text \<open>
  Every 100 ms the timer reads the scroll height, scrolls by 300 and adds 300 to
  \<open>totalHeight\<close>; it stops once \<open>totalHeight\<close> has reached the height just read.
  The height is read again at every tick, so a page that keeps growing keeps the loop
  running: the result is \<open>None\<close> when the promise is never resolved, and otherwise the
  number of ticks.
\<close>

partial_function (option) autoScroll :: "(nat \<Rightarrow> int) \<Rightarrow> nat \<Rightarrow> int \<Rightarrow> nat option" where
  "autoScroll h tick totalHeight =
    (let scrollHeight = h tick;
         totalHeight' = totalHeight + 300
     in if totalHeight' \<ge> scrollHeight then Some (Suc tick)
        else autoScroll h (Suc tick) totalHeight')"

declare autoScroll.simps [code]

definition evaluateAutoScroll :: "automation \<Rightarrow> unit step" where
  "evaluateAutoScroll m =
    andThen (await EvaluateAutoScroll (evaluateScroll m))
      (\<lambda>h s. case autoScroll h 0 0 of None \<Rightarrow> (Pending, s) | Some n \<Rightarrow> (Resolved (), s))"

section \<open>One capture task (main.js, lines 45-152)\<close>

datatype status = fulfilled | rejected

record outcome =
  status :: status
  url :: string
  device :: jsval
  error :: "string option"

text \<open>What \<^verbatim>\<open>Promise.allSettled\<close> reports for a promise that has settled.\<close>

datatype settled = Fulfilled outcome | Rejected string

text \<open>
  \<^verbatim>\<open>path.join\<close> of Node on a POSIX system (\<^verbatim>\<open>path.posix\<close>): the arguments that are
  not empty are joined with \<^verbatim>\<open>/\<close> and the result is normalised. Normalising goes
  through the segments between separators: an empty segment and \<^verbatim>\<open>.\<close> are dropped,
  \<^verbatim>\<open>..\<close> removes the segment before it (one that is not \<^verbatim>\<open>..\<close> itself) and is
  otherwise kept in a relative path and dropped in an absolute one. A leading and a
  trailing separator are kept.
\<close>

fun splitOn :: "char \<Rightarrow> string \<Rightarrow> string list" where
  "splitOn c [] = [] # []"
| "splitOn c (x # xs) =
    (if x = c then [] # splitOn c xs
     else (case splitOn c xs of [] \<Rightarrow> [x] # [] | s # ss \<Rightarrow> (x # s) # ss))"

fun joinSegments :: "string list \<Rightarrow> string" where
  "joinSegments [] = []"
| "joinSegments [s] = s"
| "joinSegments (s # t # ss) = s @ ''/'' @ joinSegments (t # ss)"

definition normalizeStep :: "bool \<Rightarrow> string list \<Rightarrow> string \<Rightarrow> string list" where
  "normalizeStep allowAboveRoot res segment =
    (if segment = [] \<or> segment = ''.'' then res
     else if segment = ''..'' then
       (if res \<noteq> [] \<and> last res \<noteq> ''..'' then butlast res
        else if allowAboveRoot then res @ [''..''] else res)
     else res @ [segment])"

definition normalizeString :: "string \<Rightarrow> bool \<Rightarrow> string" where
  "normalizeString path allowAboveRoot =
    joinSegments (foldl (normalizeStep allowAboveRoot) [] (splitOn CHR ''/'' path))"

definition normalizePath :: "string \<Rightarrow> string" where
  "normalizePath path =
    (if path = [] then ''.''
     else
      (let isAbsolute = (hd path = CHR ''/'');
           trailingSeparator = (last path = CHR ''/'');
           normalized = normalizeString path (\<not> isAbsolute)
       in if normalized = []
          then (if isAbsolute then ''/'' else if trailingSeparator then ''./'' else ''.'')
          else (if isAbsolute then ''/'' else []) @ normalized @
               (if trailingSeparator then ''/'' else [])))"

definition pathJoin :: "string \<Rightarrow> string \<Rightarrow> string" where
  "pathJoin a b =
    (let joined = (if a = [] then b else if b = [] then a else a @ ''/'' @ b)
     in if joined = [] then ''.'' else normalizePath joined)"

definition acceptButtonSelector :: string where
  "acceptButtonSelector = ''button:has-text(\"Accept All\")''"

definition logPrefix :: "string \<Rightarrow> deviceSize \<Rightarrow> string" where
  "logPrefix u d = ''['' @ u @ '' | '' @ toString (name d) @ '']''"

text \<open>Lines 79-89: the inner \<^verbatim>\<open>try\<close>, whose \<^verbatim>\<open>catch\<close> is empty.\<close>

definition handleCookieConsent :: "automation \<Rightarrow> bool step" where
  "handleCookieConsent m s =
    (case andThen (await (WaitForSelector acceptButtonSelector 5000) (waitForSelector m))
            (\<lambda>_. await (Click acceptButtonSelector) (click m)) s of
       (Resolved _, s') \<Rightarrow> (Resolved True, s')
     | (Thrown e, s') \<Rightarrow> (Resolved False, s')
     | (Pending, s') \<Rightarrow> (Pending, s'))"

text \<open>Lines 92-112.\<close>

definition scrollDownAndUp :: "automation \<Rightarrow> bool \<Rightarrow> unit step" where
  "scrollDownAndUp m hasCookieConsent =
    (if hasCookieConsent
     then andThen (evaluateAutoScroll m) (\<lambda>_. await (EvaluateScrollTo 0 0) (evaluateScrollTo m))
     else resolve ())"

definition screenshotPath :: "string \<Rightarrow> string \<Rightarrow> deviceSize \<Rightarrow> string" where
  "screenshotPath dateTimeDir u d =
    pathJoin dateTimeDir
      (urlFilename u @ ''_'' @ toString (name d) @ ''_'' @ fieldToString (width d) @ ''.png'')"

text \<open>\<^verbatim>\<open>screenshotPath.replace(/\.png$/, ".webp")\<close>: only a match at the very end.\<close>

definition replacePngSuffix :: "string \<Rightarrow> string" where
  "replacePngSuffix p =
    (if length p \<ge> 4 \<and> drop (length p - 4) p = ''.png''
     then take (length p - 4) p @ ''.webp'' else p)"

text \<open>Lines 114-137.\<close>

definition captureAndConvert :: "automation \<Rightarrow> string \<Rightarrow> string \<Rightarrow> deviceSize \<Rightarrow> unit step" where
  "captureAndConvert m dateTimeDir u d =
    (let png = screenshotPath dateTimeDir u d;
         webpPath = replacePngSuffix png
     in andThen (await (WaitForLoadState 30000) (waitForLoadState m)) (\<lambda>_.
        andThen (await (Screenshot png) (screenshot m)) (\<lambda>_.
        andThen (writeFile png) (\<lambda>_.
        andThen (await (SharpToFile png webpPath) (sharpToFile m)) (\<lambda>_.
        andThen (writeFile webpPath) (\<lambda>_.
        andThen (await (Unlink png) (unlink m)) (\<lambda>_.
        removeFile png)))))))"

text \<open>Lines 70-137: the body of the outer \<^verbatim>\<open>try\<close>.\<close>

definition tryBlock :: "automation \<Rightarrow> string \<Rightarrow> deviceSize \<Rightarrow> string \<Rightarrow> unit step" where
  "tryBlock m u d dateTimeDir =
    andThen (await (NewContext (width d) (height d) (userAgentToUse d)) (newContext m)) (\<lambda>_.
    andThen (await NewPage (newPage m)) (\<lambda>_.
    andThen (await (Goto u 60000) (goto m)) (\<lambda>_.
    andThen (handleCookieConsent m) (\<lambda>hasCookieConsent.
    andThen (scrollDownAndUp m hasCookieConsent) (\<lambda>_.
    captureAndConvert m dateTimeDir u d)))))"

text \<open>\<^verbatim>\<open>error.message.split("\n")[0]\<close>.\<close>

definition firstLine :: "string \<Rightarrow> string" where
  "firstLine msg = takeWhile (\<lambda>c. c \<noteq> CHR 0x0A) msg"

text \<open>The two objects a task returns (lines 137 and 145).\<close>

definition successOutcome :: "string \<Rightarrow> deviceSize \<Rightarrow> outcome" where
  "successOutcome u d = \<lparr>status = fulfilled, url = u, device = name d, error = None\<rparr>"

definition failureOutcome :: "string \<Rightarrow> deviceSize \<Rightarrow> string \<Rightarrow> outcome" where
  "failureOutcome u d e = \<lparr>status = rejected, url = u, device = name d, error = Some e\<rparr>"

text \<open>
  Lines 146-151: the \<^verbatim>\<open>finally\<close> closes the context when one was created. When that
  close throws, the task's promise rejects with its error in place of the value that
  was about to be returned.
\<close>

definition finallyBlock :: "automation \<Rightarrow> outcome \<Rightarrow> io \<Rightarrow> settled option \<times> io" where
  "finallyBlock m returned s =
    (case newContext m of
       Inl _ \<Rightarrow> (Some (Fulfilled returned), s)
     | Inr _ \<Rightarrow>
        (case contextClose m of
           Inl e \<Rightarrow> (Some (Rejected e), s\<lparr>calls := calls s @ [ContextClose]\<rparr>)
         | Inr _ \<Rightarrow> (Some (Fulfilled returned), s\<lparr>calls := calls s @ [ContextClose]\<rparr>)))"

text \<open>
  Lines 45-152. The \<^verbatim>\<open>catch\<close> of lines 138-145 writes the first line of the message
  to the error stream and returns the failure object with the whole message. \<open>None\<close>:
  the promise never settles. (What the task writes with \<^verbatim>\<open>console.log\<close> is left out.)
\<close>

definition takeSingleScreenshot ::
  "automation \<Rightarrow> string \<Rightarrow> deviceSize \<Rightarrow> string \<Rightarrow> io \<Rightarrow> settled option \<times> io" where
  "takeSingleScreenshot m u d dateTimeDir s =
    (case tryBlock m u d dateTimeDir s of
       (Resolved _, s1) \<Rightarrow> finallyBlock m (successOutcome u d) s1
     | (Thrown e, s1) \<Rightarrow>
         finallyBlock m (failureOutcome u d e)
           (s1\<lparr>calls := calls s1 @
              [ConsoleError [logPrefix u d @ '' Error capturing screenshot:'', firstLine e]]\<rparr>)
     | (Pending, s1) \<Rightarrow> (None, s1))"

section \<open>The orchestrator (main.js, lines 12, 39-42 and 155-274)\<close>

text \<open>
  The model starts from the object \<^verbatim>\<open>JSON.parse\<close> returned. A property of it is an
  array, or some other value (\<open>NotAnArray JUndefined\<close> when it is missing). The
  elements of \<open>urlList\<close> are strings and those of \<open>deviceSizes\<close> are objects.
\<close>

datatype 'a jsfield = NotAnArray jsval | Array "'a list"

fun truthyField :: "'a jsfield \<Rightarrow> bool" where
  "truthyField (NotAnArray v) = truthy v"
| "truthyField (Array xs) = True"

fun isArray :: "'a jsfield \<Rightarrow> bool" where
  "isArray (NotAnArray v) = False"
| "isArray (Array xs) = True"

fun elements :: "'a jsfield \<Rightarrow> 'a list" where
  "elements (NotAnArray v) = []"
| "elements (Array xs) = xs"

record config =
  urlList :: "string jsfield"
  deviceSizes :: "deviceSize jsfield"

text \<open>Line 180 and lines 186-191: the conditions under which the run is refused.\<close>

definition urlListRejected :: "string jsfield \<Rightarrow> bool" where
  "urlListRejected l = (\<not> truthyField l \<or> \<not> isArray l \<or> length (elements l) = 0)"

definition deviceSizesRejected :: "deviceSize jsfield \<Rightarrow> bool" where
  "deviceSizesRejected l =
    (\<not> truthyField l \<or> \<not> isArray l \<or> length (elements l) = 0 \<or>
     \<not> list_all (\<lambda>d. truthy (name d) \<and> truthyNum (width d) \<and> truthyNum (height d)) (elements l))"

text \<open>Lines 203-211: the local time read from \<^verbatim>\<open>new Date()\<close>, and the folder name.\<close>

record clock =
  fullYear :: int
  month :: nat
  date :: nat
  hours :: nat
  minutes :: nat

definition padStart :: "nat \<Rightarrow> char \<Rightarrow> string \<Rightarrow> string" where
  "padStart n c t = replicate (n - length t) c @ t"

definition currentDateTime :: "clock \<Rightarrow> string" where
  "currentDateTime now =
    numToString (fullYear now) @ ''-'' @
    padStart 2 CHR ''0'' (digitsOf (month now + 1)) @ ''-'' @
    padStart 2 CHR ''0'' (digitsOf (date now)) @ ''_'' @
    padStart 2 CHR ''0'' (digitsOf (hours now)) @
    padStart 2 CHR ''0'' (digitsOf (minutes now))"

definition dateTimeDir :: "string \<Rightarrow> clock \<Rightarrow> string" where
  "dateTimeDir outputDir now = pathJoin outputDir (currentDateTime now)"

text \<open>
  What lies outside the orchestrator: \<^verbatim>\<open>mkdirSync\<close> on a path, the browser's launch
  and close, and the automation layer met by the task dispatched as number \<open>i\<close>.
\<close>

record world =
  mkdirSync :: "string \<Rightarrow> unit awaited"
  launch :: "unit awaited"
  task :: "nat \<Rightarrow> automation"
  browserClose :: "unit awaited"

text \<open>\<^verbatim>\<open>if (!existsSync(dir)) mkdirSync(dir, { recursive: true })\<close>.\<close>

definition ensureDir :: "world \<Rightarrow> string \<Rightarrow> unit step" where
  "ensureDir w dir s =
    (if dir \<in> files s then resolve () s
     else andThen (await (MkdirSync dir) (mkdirSync w dir)) (\<lambda>_. writeFile dir) s)"

text \<open>
  Lines 222-229: one task per url and device, url by url, none awaited. Each starts
  from the files present at dispatch and keeps the list of its own calls: the tasks
  interleave, and no order between the calls of two tasks is fixed.
\<close>

definition screenshotTasks ::
  "world \<Rightarrow> string list \<Rightarrow> deviceSize list \<Rightarrow> string \<Rightarrow> io \<Rightarrow> (settled option \<times> io) list" where
  "screenshotTasks w urls devices dir s =
    map (\<lambda>(i, (u, d)). takeSingleScreenshot (task w i) u d dir (s\<lparr>calls := []\<rparr>))
      (enumerate 0 (List.product urls devices))"

text \<open>\<^verbatim>\<open>Promise.allSettled\<close> resolves once every promise has settled, and never before.\<close>

fun allSettled :: "settled option list \<Rightarrow> settled list option" where
  "allSettled [] = Some []"
| "allSettled (None # ps) = None"
| "allSettled (Some r # ps) = (case allSettled ps of None \<Rightarrow> None | Some rs \<Rightarrow> Some (r # rs))"

text \<open>Lines 237-249: the tally reads the status \<^verbatim>\<open>allSettled\<close> gives each promise.\<close>

fun tally :: "settled list \<Rightarrow> nat \<times> nat \<Rightarrow> nat \<times> nat" where
  "tally [] counts = counts"
| "tally (Fulfilled v # rs) (successCount, failureCount) = tally rs (successCount + 1, failureCount)"
| "tally (Rejected e # rs) (successCount, failureCount) = tally rs (successCount, failureCount + 1)"

text \<open>
  What is seen of a run: the exit code (\<open>None\<close> when the process never exits), the paths
  the orchestrator itself left behind, its own calls, the tasks it dispatched, and the
  summary it printed (total, successful, failed).
\<close>

record run =
  exitCode :: "nat option"
  dirs :: "string set"
  mainCalls :: "call list"
  dispatched :: "(settled option \<times> io) list"
  summary :: "(nat \<times> nat \<times> nat) option"

definition refuse :: "string \<Rightarrow> io \<Rightarrow> run" where
  "refuse msg s =
    \<lparr>exitCode = Some 1, dirs = files s,
     mainCalls = calls s @ [ConsoleError [msg], ProcessExit 1],
     dispatched = [], summary = None\<rparr>"

definition urlListMessage :: string where
  "urlListMessage = ''Error: config.json should contain a non-empty \"urlList\" array''"

definition deviceSizesMessage :: string where
  "deviceSizesMessage =
    ''Error: config.json should contain a valid \"deviceSizes\" array with name, width, and height properties''"

text \<open>Lines 270-274: the handler of a rejection of \<^verbatim>\<open>main()\<close>.\<close>

definition unhandled ::
  "string \<Rightarrow> io \<Rightarrow> (settled option \<times> io) list \<Rightarrow> (nat \<times> nat \<times> nat) option \<Rightarrow> run" where
  "unhandled e s ts sm =
    \<lparr>exitCode = Some 1, dirs = files s,
     mainCalls = calls s @ [ConsoleError [''Unhandled error executing main function:'', e], ProcessExit 1],
     dispatched = ts, summary = sm\<rparr>"

definition main :: "clock \<Rightarrow> world \<Rightarrow> string \<Rightarrow> config \<Rightarrow> io \<Rightarrow> run" where
  "main now w outputDir cfg s =
    (if urlListRejected (urlList cfg)
     then refuse urlListMessage s
     else if deviceSizesRejected (deviceSizes cfg)
     then refuse deviceSizesMessage s
     else
      (let urls = elements (urlList cfg);
           devices = elements (deviceSizes cfg);
           totalTasks = length urls * length devices
       in case andThen (ensureDir w (dateTimeDir outputDir now)) (\<lambda>_. await Launch (launch w)) s of
            (Thrown e, s1) \<Rightarrow> unhandled e s1 [] None
          | (Pending, s1) \<Rightarrow>
              \<lparr>exitCode = None, dirs = files s1, mainCalls = calls s1, dispatched = [], summary = None\<rparr>
          | (Resolved _, s1) \<Rightarrow>
             (let tasks = screenshotTasks w urls devices (dateTimeDir outputDir now) s1
              in case allSettled (map fst tasks) of
                   None \<Rightarrow>
                     \<lparr>exitCode = None, dirs = files s1, mainCalls = calls s1,
                      dispatched = tasks, summary = None\<rparr>
                 | Some results \<Rightarrow>
                    (let (successCount, failureCount) = tally results (0, 0);
                         sm = Some (totalTasks, successCount, failureCount);
                         s2 = s1\<lparr>calls := calls s1 @ [BrowserClose]\<rparr>
                     in case browserClose w of
                          Inl e \<Rightarrow> unhandled e s2 tasks sm
                        | Inr _ \<Rightarrow>
                            \<lparr>exitCode = Some 0, dirs = files s2, mainCalls = calls s2,
                             dispatched = tasks, summary = sm\<rparr>))))"

text \<open>
  The module as a whole: line 12 names the output directory, lines 39-42 create it while
  the module loads, and line 270 calls \<open>main\<close>. An exception of \<^verbatim>\<open>mkdirSync\<close> at load
  time is uncaught, and the process ends with code 1.
\<close>

definition outputDirOf :: "string \<Rightarrow> string" where
  "outputDirOf dirname = pathJoin dirname ''_emp-screenshots''"

definition program :: "string \<Rightarrow> clock \<Rightarrow> world \<Rightarrow> config \<Rightarrow> io \<Rightarrow> run" where
  "program dirname now w cfg s =
    (case ensureDir w (outputDirOf dirname) s of
       (Resolved _, s0) \<Rightarrow> main now w (outputDirOf dirname) cfg s0
     | (Thrown e, s0) \<Rightarrow>
         \<lparr>exitCode = Some 1, dirs = files s0, mainCalls = calls s0,
          dispatched = [], summary = None\<rparr>
     | (Pending, s0) \<Rightarrow>
         \<lparr>exitCode = None, dirs = files s0, mainCalls = calls s0,
          dispatched = [], summary = None\<rparr>)"

section \<open>Vocabulary for the properties\<close>

text \<open>
  How far the automation layer lets a task get: the page is open and loaded; the consent
  control was found and the click on it went through; the scroll loop comes to an end;
  the scrolling, where there is any, is over without an exception.
\<close>

definition navigated :: "automation \<Rightarrow> bool" where
  "navigated m = (newContext m = Inr () \<and> newPage m = Inr () \<and> goto m = Inr ())"

definition consentClicked :: "automation \<Rightarrow> bool" where
  "consentClicked m = (waitForSelector m = Inr () \<and> click m = Inr ())"

definition scrollLoopEnds :: "automation \<Rightarrow> bool" where
  "scrollLoopEnds m = (case evaluateScroll m of Inl e \<Rightarrow> False | Inr h \<Rightarrow> autoScroll h 0 0 \<noteq> None)"

definition scrolled :: "automation \<Rightarrow> bool" where
  "scrolled m = (if consentClicked m then scrollLoopEnds m \<and> evaluateScrollTo m = Inr () else True)"

text \<open>A task can hang in one place only, the scroll loop, and only when it gets there.\<close>

definition settles :: "automation \<Rightarrow> bool" where
  "settles m = (if navigated m \<and> consentClicked m then
                  (case evaluateScroll m of Inl e \<Rightarrow> True | Inr h \<Rightarrow> autoScroll h 0 0 \<noteq> None)
                else True)"

text \<open>The calls of one task, and among them the two that scroll and the three that touch files.\<close>

definition callsOf :: "automation \<Rightarrow> string \<Rightarrow> deviceSize \<Rightarrow> string \<Rightarrow> string set \<Rightarrow> call list" where
  "callsOf m u d dir fs = calls (snd (takeSingleScreenshot m u d dir \<lparr>files = fs, calls = []\<rparr>))"

definition isScrollCall :: "call \<Rightarrow> bool" where
  "isScrollCall c = (c = EvaluateAutoScroll \<or> c = EvaluateScrollTo 0 0)"

fun isFileCall :: "call \<Rightarrow> bool" where
  "isFileCall (Screenshot p) = True"
| "isFileCall (SharpToFile p q) = True"
| "isFileCall (Unlink p) = True"
| "isFileCall c = False"

text \<open>
  A segment that normalising leaves alone, an absolute path that is made of such
  segments, and the last segment of a path.
\<close>

definition plainSegment :: "string \<Rightarrow> bool" where
  "plainSegment s = (s \<noteq> [] \<and> CHR ''/'' \<notin> set s \<and> s \<noteq> ''.'' \<and> s \<noteq> ''..'')"

definition normalAbsolute :: "string \<Rightarrow> bool" where
  "normalAbsolute p =
    (case splitOn CHR ''/'' p of
       s # t # ss \<Rightarrow> s = [] \<and> list_all plainSegment (t # ss)
     | _ \<Rightarrow> False)"

definition lastSegment :: "string \<Rightarrow> string" where
  "lastSegment p = rev (takeWhile (\<lambda>c. c \<noteq> CHR ''/'') (rev p))"

text \<open>The shape \<^verbatim>\<open>YYYY-MM-DD_HHMM\<close>, and the clocks of the years that have four digits.\<close>

definition isDigit :: "char \<Rightarrow> bool" where
  "isDigit c = inRange CHR ''0'' CHR ''9'' c"

definition isTimestamp :: "string \<Rightarrow> bool" where
  "isTimestamp t =
    (length t = 15 \<and>
     list_all isDigit (take 4 t) \<and> t ! 4 = CHR ''-'' \<and>
     list_all isDigit (take 2 (drop 5 t)) \<and> t ! 7 = CHR ''-'' \<and>
     list_all isDigit (take 2 (drop 8 t)) \<and> t ! 10 = CHR ''_'' \<and>
     list_all isDigit (drop 11 t))"

definition calendarTime :: "clock \<Rightarrow> bool" where
  "calendarTime now =
    (1000 \<le> fullYear now \<and> fullYear now \<le> 9999 \<and> month now \<le> 11 \<and>
     1 \<le> date now \<and> date now \<le> 31 \<and> hours now \<le> 23 \<and> minutes now \<le> 59)"

text \<open>
  The folder name as the specification words it, \<^verbatim>\<open>YYYY-MM-DD_HHMM\<close>: the four digits
  of the year, then the month counted from 1, the day, the hour and the minute, two
  digits each.
\<close>

definition twoDigits :: "nat \<Rightarrow> string" where
  "twoDigits n = [digitChar (n div 10), digitChar (n mod 10)]"

definition timestampSpec :: "clock \<Rightarrow> string" where
  "timestampSpec now =
    [digitChar (nat (fullYear now) div 1000), digitChar (nat (fullYear now) div 100),
     digitChar (nat (fullYear now) div 10), digitChar (nat (fullYear now))] @ ''-'' @
    twoDigits (month now + 1) @ ''-'' @ twoDigits (date now) @ ''_'' @
    twoDigits (hours now) @ twoDigits (minutes now)"

text \<open>A world in which creating directories and opening the browser go through.\<close>

definition startsUp :: "world \<Rightarrow> bool" where
  "startsUp w = ((\<forall>p. mkdirSync w p = Inr ()) \<and> launch w = Inr ())"

section \<open>The scenarios of the specification, as inputs\<close>

text \<open>
  The end-to-end scenario: one URL, one desktop device, an automation layer in which
  every call goes through, on a page 1000 pixels high that shows a consent control.
\<close>

definition desktop :: deviceSize where
  "desktop = \<lparr>name = JStr ''desktop'', width = Some 1280, height = Some 800, userAgent = JUndefined\<rparr>"

definition scenario :: config where
  "scenario = \<lparr>urlList = Array [''https://a.test''], deviceSizes = Array [desktop]\<rparr>"

definition obliging :: automation where
  "obliging =
    \<lparr>newContext = Inr (), newPage = Inr (), goto = Inr (), waitForSelector = Inr (),
     click = Inr (), evaluateScroll = Inr (\<lambda>k. 1000), evaluateScrollTo = Inr (),
     waitForLoadState = Inr (), screenshot = Inr (), sharpToFile = Inr (), unlink = Inr (),
     contextClose = Inr ()\<rparr>"

definition calm :: "automation \<Rightarrow> world" where
  "calm m = \<lparr>mkdirSync = (\<lambda>p. Inr ()), launch = Inr (), task = (\<lambda>i. m), browserClose = Inr ()\<rparr>"

definition morning :: clock where
  "morning = \<lparr>fullYear = 2025, month = 0, date = 9, hours = 7, minutes = 5\<rparr>"

definition blank :: io where
  "blank = \<lparr>files = {}, calls = []\<rparr>"

text \<open>A navigation timeout as Playwright words it: two lines.\<close>

definition timeoutMessage :: string where
  "timeoutMessage = ''Timeout 60000ms exceeded.'' @ [CHR 0x0A] @ ''Call log:''"

text \<open>A page that is 600 pixels high at first and grows by 300 pixels between two ticks.\<close>

definition endlessPage :: "nat \<Rightarrow> int" where
  "endlessPage k = 300 * int k + 600"

section \<open>The user agent of a device\<close>

lemma getDefaultUserAgent_nonempty: "getDefaultUserAgent w \<noteq> []"
  by (simp add: getDefaultUserAgent_def USER_AGENTS_mobile_def USER_AGENTS_tablet_def USER_AGENTS_desktop_def)

text \<open>
  C3, as the code has it. A user agent that is truthy (a non-empty string) is returned
  unchanged whatever the width. Otherwise the width decides: up to 600 the mobile
  default, above 600 and up to 1024 the tablet default, above 1024 the desktop default;
  both upper bounds belong to the lower tier.
\<close>

theorem userAgent_resolution:
  "(truthy (userAgent d) \<longrightarrow> userAgentToUse d = userAgent d) \<and>
   (\<not> truthy (userAgent d) \<and> width d = Some w \<longrightarrow>
      (w \<le> 600 \<longrightarrow> userAgentToUse d = JStr USER_AGENTS_mobile) \<and>
      (600 < w \<and> w \<le> 1024 \<longrightarrow> userAgentToUse d = JStr USER_AGENTS_tablet) \<and>
      (1024 < w \<longrightarrow> userAgentToUse d = JStr USER_AGENTS_desktop))"
  by (simp add: userAgentToUse_def getDefaultUserAgent_def)

text \<open>The tiers at their boundaries, and an explicit user agent on a narrow device.\<close>

theorem userAgent_resolution_witness:
  "userAgentToUse \<lparr>name = JStr ''d'', width = Some 400, height = Some 800, userAgent = JStr ''X''\<rparr> = JStr ''X'' \<and>
   userAgentToUse \<lparr>name = JStr ''d'', width = Some 400, height = Some 800, userAgent = JUndefined\<rparr> = JStr USER_AGENTS_mobile \<and>
   userAgentToUse \<lparr>name = JStr ''d'', width = Some 600, height = Some 800, userAgent = JUndefined\<rparr> = JStr USER_AGENTS_mobile \<and>
   userAgentToUse \<lparr>name = JStr ''d'', width = Some 601, height = Some 800, userAgent = JUndefined\<rparr> = JStr USER_AGENTS_tablet \<and>
   userAgentToUse \<lparr>name = JStr ''d'', width = Some 1024, height = Some 800, userAgent = JUndefined\<rparr> = JStr USER_AGENTS_tablet \<and>
   userAgentToUse \<lparr>name = JStr ''d'', width = Some 1025, height = Some 800, userAgent = JUndefined\<rparr> = JStr USER_AGENTS_desktop"
  using userAgent_resolution [of "\<lparr>name = JStr ''d'', width = Some 400, height = Some 800, userAgent = JStr ''X''\<rparr>" 400]
    userAgent_resolution [of "\<lparr>name = JStr ''d'', width = Some 400, height = Some 800, userAgent = JUndefined\<rparr>" 400]
    userAgent_resolution [of "\<lparr>name = JStr ''d'', width = Some 600, height = Some 800, userAgent = JUndefined\<rparr>" 600]
    userAgent_resolution [of "\<lparr>name = JStr ''d'', width = Some 601, height = Some 800, userAgent = JUndefined\<rparr>" 601]
    userAgent_resolution [of "\<lparr>name = JStr ''d'', width = Some 1024, height = Some 800, userAgent = JUndefined\<rparr>" 1024]
    userAgent_resolution [of "\<lparr>name = JStr ''d'', width = Some 1025, height = Some 800, userAgent = JUndefined\<rparr>" 1025]
  by simp

text \<open>
  C3 as worded fails for a user agent that is set to the empty string: the field is
  present, and the resolver returns the mobile default in its place.
\<close>

theorem empty_userAgent_not_returned:
  "userAgent \<lparr>name = JStr ''d'', width = Some 400, height = Some 800, userAgent = JStr ''''\<rparr> \<noteq> JUndefined \<and>
   userAgentToUse \<lparr>name = JStr ''d'', width = Some 400, height = Some 800, userAgent = JStr ''''\<rparr>
     \<noteq> userAgent \<lparr>name = JStr ''d'', width = Some 400, height = Some 800, userAgent = JStr ''''\<rparr>"
  by (simp add: userAgentToUse_def getDefaultUserAgent_def USER_AGENTS_mobile_def)

text \<open>
  C10. A user agent that is falsy (the empty string, \<^verbatim>\<open>null\<close>, \<^verbatim>\<open>false\<close>, \<open>0\<close>, or
  missing) is not what the resolver returns: the result is the default for the width,
  and it differs from the field.
\<close>

theorem falsy_userAgent_replaced:
  "\<not> truthy (userAgent d) \<Longrightarrow>
     userAgentToUse d = JStr (getDefaultUserAgent (width d)) \<and> userAgentToUse d \<noteq> userAgent d"
  using getDefaultUserAgent_nonempty [of "width d"] by (cases "userAgent d") (auto simp: userAgentToUse_def)

theorem falsy_userAgent_replaced_witness:
  "\<not> truthy (userAgent \<lparr>name = JStr ''d'', width = Some 700, height = Some 800, userAgent = JStr ''''\<rparr>) \<and>
   userAgentToUse \<lparr>name = JStr ''d'', width = Some 700, height = Some 800, userAgent = JStr ''''\<rparr> = JStr USER_AGENTS_tablet \<and>
   userAgentToUse \<lparr>name = JStr ''d'', width = Some 700, height = Some 800, userAgent = JStr ''''\<rparr> \<noteq> JStr ''''"
  using falsy_userAgent_replaced [of "\<lparr>name = JStr ''d'', width = Some 700, height = Some 800, userAgent = JStr ''''\<rparr>"]
  by (simp add: getDefaultUserAgent_def USER_AGENTS_tablet_def)


section \<open>The slug of a URL\<close>

lemma matchLiteral_append: "matchLiteral p (p @ r) = Some r"
  by (induction p) auto

lemma matchLiteral_Some: "matchLiteral p t = Some r \<Longrightarrow> t = p @ r"
  by (induction p t rule: matchLiteral.induct) (auto split: if_splits)

lemma matchScheme_Some:
  assumes "matchScheme u = Some t"
  shows "u = ''https://'' @ t \<or> u = ''http://'' @ t"
proof -
  from assms obtain r where r: "matchLiteral ''http'' u = Some r"
    by (auto simp: matchScheme_def split: option.splits)
  then have u: "u = ''http'' @ r" by (rule matchLiteral_Some)
  from assms r have
    "(\<exists>r'. matchLiteral ''s'' r = Some r' \<and> matchLiteral ''://'' r' = Some t) \<or>
     matchLiteral ''://'' r = Some t"
    by (auto simp: matchScheme_def split: option.splits)
  then show ?thesis
  proof
    assume "\<exists>r'. matchLiteral ''s'' r = Some r' \<and> matchLiteral ''://'' r' = Some t"
    then obtain r' where "matchLiteral ''s'' r = Some r'" "matchLiteral ''://'' r' = Some t"
      by blast
    then have "r = ''s'' @ r'" "r' = ''://'' @ t" by (auto dest: matchLiteral_Some)
    with u show ?thesis by simp
  next
    assume "matchLiteral ''://'' r = Some t"
    then have "r = ''://'' @ t" by (rule matchLiteral_Some)
    with u show ?thesis by simp
  qed
qed

lemma matchScheme_https: "matchScheme (''https://'' @ r) = Some r"
  by (simp add: matchScheme_def)

lemma matchScheme_http: "matchScheme (''http://'' @ r) = Some r"
  by (simp add: matchScheme_def)

lemma replaceScheme_prefix:
  "replaceScheme u =
    (if take 8 u = ''https://'' then drop 8 u
     else if take 7 u = ''http://'' then drop 7 u
     else u)"
proof (cases "take 8 u = ''https://''")
  case True
  then have "u = ''https://'' @ drop 8 u" by (metis append_take_drop_id)
  then have "matchScheme u = Some (drop 8 u)" by (metis matchScheme_https)
  with True show ?thesis by (simp add: replaceScheme_def)
next
  case no_https: False
  show ?thesis
  proof (cases "take 7 u = ''http://''")
    case True
    then have "u = ''http://'' @ drop 7 u" by (metis append_take_drop_id)
    then have "matchScheme u = Some (drop 7 u)" by (metis matchScheme_http)
    with True no_https show ?thesis by (simp add: replaceScheme_def)
  next
    case False
    have "matchScheme u = None"
    proof (cases "matchScheme u")
      case (Some t)
      then have "u = ''https://'' @ t \<or> u = ''http://'' @ t" by (rule matchScheme_Some)
      with no_https False show ?thesis by auto
    qed simp
    with no_https False show ?thesis by (simp add: replaceScheme_def)
  qed
qed

lemma replaceNonAlnum_map:
  "replaceNonAlnum t = map (\<lambda>c. if isAlnum c then c else CHR ''_'') t"
  by (induction t) auto

text \<open>
  C7. The file name the code derives from a URL is the slug of the specification: the
  URL without a leading \<^verbatim>\<open>http://\<close> or \<^verbatim>\<open>https://\<close>, every code unit outside
  \<^verbatim>\<open>[a-zA-Z0-9]\<close> replaced by an underscore. The specification's example comes out
  as it says.
\<close>

theorem urlFilename_slug:
  "urlFilename u = slugSpec u \<and>
   urlFilename ''https://example.com/a?b=1'' = ''example_com_a_b_1''"
proof
  show "urlFilename u = slugSpec u"
    by (simp only: urlFilename_def slugSpec_def replaceNonAlnum_map replaceScheme_prefix)
  show "urlFilename ''https://example.com/a?b=1'' = ''example_com_a_b_1''"
    by (simp add: urlFilename_def replaceScheme_def matchScheme_def isAlnum_def inRange_def)
qed

section \<open>The scroll loop ends on a page of bounded height, and not on every page\<close>

lemma autoScroll_bounded:
  assumes "\<And>k. h k \<le> B"
  shows "\<exists>n. autoScroll h tick tot = Some n"
proof (induction "nat (B - tot)" arbitrary: tick tot rule: less_induct)
  case less
  show ?case
  proof (cases "tot + 300 \<ge> h tick")
    case True
    then show ?thesis by (subst autoScroll.simps) (simp add: Let_def)
  next
    case False
    with assms [of tick] have "nat (B - (tot + 300)) < nat (B - tot)" by linarith
    from less [OF this] obtain n where "autoScroll h (Suc tick) (tot + 300) = Some n" by blast
    with False show ?thesis by (subst autoScroll.simps) (simp add: Let_def)
  qed
qed

lemma autoScroll_growing:
  assumes "autoScroll h tick tot = Some n"
  shows "\<exists>k. tick \<le> k \<and> h k \<le> tot + 300 * (int k - int tick) + 300"
proof (rule autoScroll.raw_induct
    [where P = "\<lambda>h tick tot n. \<exists>k. tick \<le> k \<and> h k \<le> tot + 300 * (int k - int tick) + 300",
     OF _ assms])
  fix f :: "(nat \<Rightarrow> int) \<Rightarrow> nat \<Rightarrow> int \<Rightarrow> nat option" and h tick tot n
  assume IH: "\<And>h tick tot n. f h tick tot = Some n \<Longrightarrow>
      \<exists>k. tick \<le> k \<and> h k \<le> tot + 300 * (int k - int tick) + 300"
    and step: "(let scrollHeight = h tick; totalHeight' = tot + 300
       in if scrollHeight \<le> totalHeight' then Some (Suc tick) else f h (Suc tick) totalHeight') = Some n"
  show "\<exists>k. tick \<le> k \<and> h k \<le> tot + 300 * (int k - int tick) + 300"
  proof (cases "tot + 300 \<ge> h tick")
    case True
    then have "tick \<le> tick \<and> h tick \<le> tot + 300 * (int tick - int tick) + 300" by simp
    then show ?thesis ..
  next
    case False
    with step have "f h (Suc tick) (tot + 300) = Some n" by (simp add: Let_def)
    from IH [OF this] obtain k
      where k: "Suc tick \<le> k" "h k \<le> tot + 300 + 300 * (int k - int (Suc tick)) + 300"
      by (elim exE conjE)
    have "tot + 300 + 300 * (int k - int (Suc tick)) + 300 = tot + 300 * (int k - int tick) + 300"
      by simp
    with k have "tick \<le> k \<and> h k \<le> tot + 300 * (int k - int tick) + 300" by simp
    then show ?thesis ..
  qed
qed

lemma autoScroll_endlessPage: "autoScroll endlessPage 0 0 = None"
proof (cases "autoScroll endlessPage 0 0")
  case (Some n)
  from autoScroll_growing [OF this] obtain k where "endlessPage k \<le> 0 + 300 * (int k - int 0) + 300"
    by (elim exE conjE)
  then show ?thesis by (simp add: endlessPage_def)
qed simp

lemma autoScroll_1000: "autoScroll (\<lambda>k. 1000) 0 0 = Some 4"
  by (simp add: autoScroll.simps Let_def)

section \<open>What a task returns, step by step\<close>

lemmas step_defs = andThen_def await_def resolve_def writeFile_def removeFile_def

lemmas task_defs = takeSingleScreenshot_def finallyBlock_def

lemmas cond_defs = navigated_def consentClicked_def scrollLoopEnds_def scrolled_def

lemma capture_fst:
  "fst (captureAndConvert m dir u d s) =
    (case waitForLoadState m of Inl e \<Rightarrow> Thrown e | Inr _ \<Rightarrow>
    (case screenshot m of Inl e \<Rightarrow> Thrown e | Inr _ \<Rightarrow>
    (case sharpToFile m of Inl e \<Rightarrow> Thrown e | Inr _ \<Rightarrow>
    (case unlink m of Inl e \<Rightarrow> Thrown e | Inr _ \<Rightarrow> Resolved ()))))"
  by (simp add: captureAndConvert_def step_defs Let_def split: sum.splits)

lemma task_fst:
  "fst (takeSingleScreenshot m u d dir s) =
    (case fst (tryBlock m u d dir s) of
       Pending \<Rightarrow> None
     | Thrown e \<Rightarrow>
        (case newContext m of Inl _ \<Rightarrow> Some (Fulfilled (failureOutcome u d e))
         | Inr _ \<Rightarrow> (case contextClose m of Inl ce \<Rightarrow> Some (Rejected ce)
                     | Inr _ \<Rightarrow> Some (Fulfilled (failureOutcome u d e))))
     | Resolved _ \<Rightarrow>
        (case newContext m of Inl _ \<Rightarrow> Some (Fulfilled (successOutcome u d))
         | Inr _ \<Rightarrow> (case contextClose m of Inl ce \<Rightarrow> Some (Rejected ce)
                     | Inr _ \<Rightarrow> Some (Fulfilled (successOutcome u d)))))"
proof (cases "tryBlock m u d dir s")
  case (Pair r s1)
  then show ?thesis
    by (cases r)
       (simp_all add: task_defs failureOutcome_def successOutcome_def Let_def
          split: sum.splits)
qed

lemma tryBlock_fst:
  "fst (tryBlock m u d dir s) =
    (case newContext m of Inl e \<Rightarrow> Thrown e | Inr _ \<Rightarrow>
    (case newPage m of Inl e \<Rightarrow> Thrown e | Inr _ \<Rightarrow>
    (case goto m of Inl e \<Rightarrow> Thrown e | Inr _ \<Rightarrow>
    (if consentClicked m then
       (case evaluateScroll m of Inl e \<Rightarrow> Thrown e | Inr h \<Rightarrow>
       (case autoScroll h 0 0 of None \<Rightarrow> Pending | Some n \<Rightarrow>
       (case evaluateScrollTo m of Inl e \<Rightarrow> Thrown e | Inr _ \<Rightarrow>
          fst (captureAndConvert m dir u d s))))
     else fst (captureAndConvert m dir u d s)))))"
  by (simp add: tryBlock_def handleCookieConsent_def scrollDownAndUp_def evaluateAutoScroll_def
        step_defs consentClicked_def capture_fst
      split: sum.splits option.splits)

text \<open>
  C4, as the code has it. The task's promise rejects only when closing the context
  throws. A context that cannot be created is a failure outcome. When the close goes
  through, an exception of any step outside the consent handling (the new page, the
  navigation, either scroll call, the final wait, the screenshot, the re-encoding, the
  deletion of the intermediate file) comes back as a failure outcome with that
  exception's message. An exception in the consent handling is no outcome at all: the
  task carries on, and succeeds when the later steps do.
\<close>

theorem task_failure_outcome:
  "(\<forall>e. fst (takeSingleScreenshot m u d dir s) = Some (Rejected e) \<longrightarrow>
        newContext m = Inr () \<and> contextClose m = Inl e) \<and>
   (newContext m = Inl e \<longrightarrow>
      fst (takeSingleScreenshot m u d dir s) = Some (Fulfilled (failureOutcome u d e))) \<and>
   (contextClose m = Inr () \<longrightarrow>
     (newContext m = Inr () \<and> newPage m = Inl e \<longrightarrow>
        fst (takeSingleScreenshot m u d dir s) = Some (Fulfilled (failureOutcome u d e))) \<and>
     (newContext m = Inr () \<and> newPage m = Inr () \<and> goto m = Inl e \<longrightarrow>
        fst (takeSingleScreenshot m u d dir s) = Some (Fulfilled (failureOutcome u d e))) \<and>
     (navigated m \<and> consentClicked m \<and> evaluateScroll m = Inl e \<longrightarrow>
        fst (takeSingleScreenshot m u d dir s) = Some (Fulfilled (failureOutcome u d e))) \<and>
     (navigated m \<and> consentClicked m \<and> scrollLoopEnds m \<and> evaluateScrollTo m = Inl e \<longrightarrow>
        fst (takeSingleScreenshot m u d dir s) = Some (Fulfilled (failureOutcome u d e))) \<and>
     (navigated m \<and> scrolled m \<and> waitForLoadState m = Inl e \<longrightarrow>
        fst (takeSingleScreenshot m u d dir s) = Some (Fulfilled (failureOutcome u d e))) \<and>
     (navigated m \<and> scrolled m \<and> waitForLoadState m = Inr () \<and> screenshot m = Inl e \<longrightarrow>
        fst (takeSingleScreenshot m u d dir s) = Some (Fulfilled (failureOutcome u d e))) \<and>
     (navigated m \<and> scrolled m \<and> waitForLoadState m = Inr () \<and> screenshot m = Inr () \<and>
      sharpToFile m = Inl e \<longrightarrow>
        fst (takeSingleScreenshot m u d dir s) = Some (Fulfilled (failureOutcome u d e))) \<and>
     (navigated m \<and> scrolled m \<and> waitForLoadState m = Inr () \<and> screenshot m = Inr () \<and>
      sharpToFile m = Inr () \<and> unlink m = Inl e \<longrightarrow>
        fst (takeSingleScreenshot m u d dir s) = Some (Fulfilled (failureOutcome u d e))) \<and>
     (navigated m \<and> \<not> consentClicked m \<and> waitForLoadState m = Inr () \<and> screenshot m = Inr () \<and>
      sharpToFile m = Inr () \<and> unlink m = Inr () \<longrightarrow>
        fst (takeSingleScreenshot m u d dir s) = Some (Fulfilled (successOutcome u d))))"
proof (intro conjI impI allI)
  fix e'
  assume "fst (takeSingleScreenshot m u d dir s) = Some (Rejected e')"
  then show "newContext m = Inr ()" "contextClose m = Inl e'"
    by (auto simp: task_fst split: completion.splits sum.splits)
qed (auto simp: task_fst tryBlock_fst capture_fst cond_defs split: sum.splits option.splits)

text \<open>The deletion of the intermediate file fails: the task returns a failure outcome.\<close>

theorem task_failure_outcome_witness:
  "contextClose (obliging\<lparr>unlink := Inl ''EPERM: operation not permitted''\<rparr>) = Inr () \<and>
   navigated (obliging\<lparr>unlink := Inl ''EPERM: operation not permitted''\<rparr>) \<and>
   scrolled (obliging\<lparr>unlink := Inl ''EPERM: operation not permitted''\<rparr>) \<and>
   unlink (obliging\<lparr>unlink := Inl ''EPERM: operation not permitted''\<rparr>) = Inl ''EPERM: operation not permitted'' \<and>
   fst (takeSingleScreenshot (obliging\<lparr>unlink := Inl ''EPERM: operation not permitted''\<rparr>)
          ''https://a.test'' desktop ''shots'' blank)
     = Some (Fulfilled (failureOutcome ''https://a.test'' desktop ''EPERM: operation not permitted''))"
  using task_failure_outcome
    [of "obliging\<lparr>unlink := Inl ''EPERM: operation not permitted''\<rparr>" "''https://a.test''" desktop
        "''shots''" blank "''EPERM: operation not permitted''"]
  by (simp add: obliging_def cond_defs autoScroll_1000)

text \<open>
  C4 as worded fails twice: a close that throws makes the task raise, and a consent
  wait that times out gives a success outcome, not a failure outcome.
\<close>

theorem task_raises_when_close_throws:
  "fst (takeSingleScreenshot (obliging\<lparr>contextClose := Inl ''Target closed''\<rparr>)
          ''https://a.test'' desktop ''shots'' blank) = Some (Rejected ''Target closed'') \<and>
   fst (takeSingleScreenshot (obliging\<lparr>waitForSelector := Inl ''Timeout 5000ms exceeded.''\<rparr>)
          ''https://a.test'' desktop ''shots'' blank)
     = Some (Fulfilled (successOutcome ''https://a.test'' desktop))"
  by (simp add: task_fst tryBlock_fst capture_fst obliging_def cond_defs autoScroll_1000)

text \<open>
  C5, as the code has it. When the body of the \<^verbatim>\<open>try\<close> throws, every outcome the task
  returns is the failure record with the url, the device name and the whole message of
  the exception, and it is returned whenever the close goes through; the line written
  to the error stream is the one that carries the first line of the message only.
\<close>

theorem caught_error_outcome:
  "fst (tryBlock m u d dir s) = Thrown e \<Longrightarrow>
     (\<forall>r. fst (takeSingleScreenshot m u d dir s) = Some (Fulfilled r) \<longrightarrow> r = failureOutcome u d e) \<and>
     (contextClose m = Inr () \<longrightarrow>
        fst (takeSingleScreenshot m u d dir s) = Some (Fulfilled (failureOutcome u d e))) \<and>
     ConsoleError [logPrefix u d @ '' Error capturing screenshot:'', firstLine e]
       \<in> set (calls (snd (takeSingleScreenshot m u d dir s)))"
  by (cases "tryBlock m u d dir s")
     (auto simp: task_defs failureOutcome_def Let_def split: sum.splits)

text \<open>A navigation that times out with a message of two lines.\<close>

theorem caught_error_outcome_witness:
  "fst (tryBlock (obliging\<lparr>goto := Inl timeoutMessage\<rparr>) ''https://a.test'' desktop ''shots'' blank)
     = Thrown timeoutMessage \<and>
   contextClose (obliging\<lparr>goto := Inl timeoutMessage\<rparr>) = Inr () \<and>
   fst (takeSingleScreenshot (obliging\<lparr>goto := Inl timeoutMessage\<rparr>) ''https://a.test'' desktop ''shots'' blank)
     = Some (Fulfilled (failureOutcome ''https://a.test'' desktop timeoutMessage)) \<and>
   ConsoleError [logPrefix ''https://a.test'' desktop @ '' Error capturing screenshot:'', firstLine timeoutMessage]
     \<in> set (calls (snd (takeSingleScreenshot (obliging\<lparr>goto := Inl timeoutMessage\<rparr>)
          ''https://a.test'' desktop ''shots'' blank)))"
proof -
  let ?m = "obliging\<lparr>goto := Inl timeoutMessage\<rparr>"
  have t: "fst (tryBlock ?m ''https://a.test'' desktop ''shots'' blank) = Thrown timeoutMessage"
    by (simp add: tryBlock_fst obliging_def)
  have c: "contextClose ?m = Inr ()" by (simp add: obliging_def)
  from caught_error_outcome [OF t] c t show ?thesis by blast
qed

text \<open>
  C5 as worded fails on that message: the outcome carries both lines, and the first
  line alone is a different string.
\<close>

theorem outcome_carries_whole_message:
  "fst (takeSingleScreenshot (obliging\<lparr>goto := Inl timeoutMessage\<rparr>) ''https://a.test'' desktop ''shots'' blank)
     = Some (Fulfilled \<lparr>status = rejected, url = ''https://a.test'', device = JStr ''desktop'',
          error = Some timeoutMessage\<rparr>) \<and>
   firstLine timeoutMessage = ''Timeout 60000ms exceeded.'' \<and>
   timeoutMessage \<noteq> firstLine timeoutMessage"
  by (simp add: task_fst tryBlock_fst obliging_def failureOutcome_def desktop_def firstLine_def
        timeoutMessage_def)

section \<open>Scrolling is gated by the consent control\<close>

lemma capture_scrollCalls:
  "filter isScrollCall (calls (snd (captureAndConvert m dir u d s))) = filter isScrollCall (calls s)"
  by (simp add: captureAndConvert_def step_defs isScrollCall_def Let_def split: sum.splits)

lemma task_scrollCalls:
  "filter isScrollCall (calls (snd (takeSingleScreenshot m u d dir s))) =
   filter isScrollCall (calls (snd (tryBlock m u d dir s)))"
proof (cases "tryBlock m u d dir s")
  case (Pair r s1)
  then show ?thesis
    by (cases r) (simp_all add: task_defs isScrollCall_def Let_def split: sum.splits)
qed

lemma tryBlock_scrollCalls:
  "filter isScrollCall (calls (snd (tryBlock m u d dir s))) =
   filter isScrollCall (calls s) @
     (if navigated m \<and> consentClicked m
      then EvaluateAutoScroll # (if scrollLoopEnds m then [EvaluateScrollTo 0 0] else [])
      else [])"
  by (simp add: tryBlock_def handleCookieConsent_def scrollDownAndUp_def evaluateAutoScroll_def
        step_defs cond_defs capture_scrollCalls isScrollCall_def
      split: sum.splits option.splits)

lemma capture_calls_mono: "set (calls s) \<subseteq> set (calls (snd (captureAndConvert m dir u d s)))"
  by (auto simp: captureAndConvert_def step_defs Let_def split: sum.splits)

lemma capture_calls_first:
  "WaitForLoadState 30000 \<in> set (calls (snd (captureAndConvert m dir u d s)))"
  by (auto simp: captureAndConvert_def step_defs Let_def split: sum.splits)

lemma capture_no_consent_calls:
  "c = Click x \<or> c = WaitForSelector x n \<Longrightarrow>
   c \<in> set (calls (snd (captureAndConvert m dir u d s))) \<longleftrightarrow> c \<in> set (calls s)"
  by (auto simp: captureAndConvert_def step_defs Let_def split: sum.splits)

lemma task_calls_set:
  "set (calls (snd (tryBlock m u d dir s))) \<subseteq> set (calls (snd (takeSingleScreenshot m u d dir s)))"
proof (cases "tryBlock m u d dir s")
  case (Pair r s1)
  then show ?thesis
    by (cases r) (auto simp: task_defs Let_def split: sum.splits)
qed

lemma task_no_extra_click:
  "Click x \<in> set (calls (snd (takeSingleScreenshot m u d dir s))) \<longleftrightarrow>
   Click x \<in> set (calls (snd (tryBlock m u d dir s)))"
proof (cases "tryBlock m u d dir s")
  case (Pair r s1)
  then show ?thesis
    by (cases r) (auto simp: task_defs Let_def split: sum.splits)
qed

lemma consent_timeout_calls:
  assumes "navigated m" "waitForSelector m = Inl e"
  shows "WaitForSelector acceptButtonSelector 5000 \<in> set (callsOf m u d dir fs)"
    and "Click acceptButtonSelector \<notin> set (callsOf m u d dir fs)"
    and "WaitForLoadState 30000 \<in> set (callsOf m u d dir fs)"
proof -
  let ?s = "\<lparr>files = fs, calls = []\<rparr>"
  let ?s1 = "\<lparr>files = fs, calls = [NewContext (width d) (height d) (userAgentToUse d), NewPage, Goto u 60000,
      WaitForSelector acceptButtonSelector 5000]\<rparr>"
  from assms have tb: "tryBlock m u d dir ?s = captureAndConvert m dir u d ?s1"
    by (simp add: tryBlock_def handleCookieConsent_def scrollDownAndUp_def step_defs navigated_def)
  have "WaitForSelector acceptButtonSelector 5000 \<in> set (calls ?s1)" by simp
  then have "WaitForSelector acceptButtonSelector 5000 \<in> set (calls (snd (tryBlock m u d dir ?s)))"
    using capture_calls_mono [of ?s1 m dir u d] tb by auto
  then show "WaitForSelector acceptButtonSelector 5000 \<in> set (callsOf m u d dir fs)"
    using task_calls_set [of m u d dir ?s] by (auto simp: callsOf_def)
  have "WaitForLoadState 30000 \<in> set (calls (snd (tryBlock m u d dir ?s)))"
    using capture_calls_first [of m dir u d ?s1] tb by simp
  then show "WaitForLoadState 30000 \<in> set (callsOf m u d dir fs)"
    using task_calls_set [of m u d dir ?s] by (auto simp: callsOf_def)
  have "Click acceptButtonSelector \<notin> set (calls ?s1)" by simp
  then have "Click acceptButtonSelector \<notin> set (calls (snd (tryBlock m u d dir ?s)))"
    using capture_no_consent_calls [of "Click acceptButtonSelector" acceptButtonSelector _ m dir u d ?s1] tb
    by simp
  then show "Click acceptButtonSelector \<notin> set (callsOf m u d dir fs)"
    by (simp add: callsOf_def task_no_extra_click)
qed

lemma count_scroll_calls:
  "isScrollCall c \<Longrightarrow> count_list xs c = count_list (filter isScrollCall xs) c"
  by (induction xs) auto

lemma scroll_calls_of_task:
  "filter isScrollCall (callsOf m u d dir fs) =
     (if navigated m \<and> consentClicked m
      then EvaluateAutoScroll # (if scrollLoopEnds m then [EvaluateScrollTo 0 0] else [])
      else [])"
  by (simp add: callsOf_def task_scrollCalls tryBlock_scrollCalls)

text \<open>
  C6, as the code has it. Among the calls of a task, the scroll to the bottom is made
  once when the page was reached and the consent control was found and clicked, and
  never otherwise. The jump to the top is made once when, besides, the call that scrolls
  to the bottom resolves (it does not throw and its loop comes to an end), and never
  otherwise; when both are made they are made in this order. When the wait for the
  control (bounded by 5000 ms) throws, nothing is clicked, the task goes on to the final
  wait, and it succeeds if the later steps do.
\<close>

theorem consent_gates_scrolling:
  "count_list (callsOf m u d dir fs) EvaluateAutoScroll
     = (if navigated m \<and> consentClicked m then 1 else 0) \<and>
   count_list (callsOf m u d dir fs) (EvaluateScrollTo 0 0)
     = (if navigated m \<and> consentClicked m \<and> scrollLoopEnds m then 1 else 0) \<and>
   (navigated m \<and> consentClicked m \<and> scrollLoopEnds m \<longrightarrow>
      filter isScrollCall (callsOf m u d dir fs) = [EvaluateAutoScroll, EvaluateScrollTo 0 0]) \<and>
   (navigated m \<and> waitForSelector m = Inl e \<longrightarrow>
      WaitForSelector acceptButtonSelector 5000 \<in> set (callsOf m u d dir fs) \<and>
      Click acceptButtonSelector \<notin> set (callsOf m u d dir fs) \<and>
      WaitForLoadState 30000 \<in> set (callsOf m u d dir fs) \<and>
      (waitForLoadState m = Inr () \<and> screenshot m = Inr () \<and> sharpToFile m = Inr () \<and>
       unlink m = Inr () \<and> contextClose m = Inr () \<longrightarrow>
         fst (takeSingleScreenshot m u d dir \<lparr>files = fs, calls = []\<rparr>)
           = Some (Fulfilled (successOutcome u d))))"
proof (intro conjI impI)
  show "count_list (callsOf m u d dir fs) EvaluateAutoScroll
     = (if navigated m \<and> consentClicked m then 1 else 0)"
    by (subst count_scroll_calls) (simp_all add: scroll_calls_of_task isScrollCall_def)
  show "count_list (callsOf m u d dir fs) (EvaluateScrollTo 0 0)
     = (if navigated m \<and> consentClicked m \<and> scrollLoopEnds m then 1 else 0)"
    by (subst count_scroll_calls) (simp_all add: scroll_calls_of_task isScrollCall_def)
  assume "navigated m \<and> consentClicked m \<and> scrollLoopEnds m"
  then show "filter isScrollCall (callsOf m u d dir fs) = [EvaluateAutoScroll, EvaluateScrollTo 0 0]"
    by (simp add: scroll_calls_of_task)
next
  assume a: "navigated m \<and> waitForSelector m = Inl e"
  then show "WaitForSelector acceptButtonSelector 5000 \<in> set (callsOf m u d dir fs)"
    and "Click acceptButtonSelector \<notin> set (callsOf m u d dir fs)"
    and "WaitForLoadState 30000 \<in> set (callsOf m u d dir fs)"
    using consent_timeout_calls [of m e u d dir fs] by simp_all
  assume "waitForLoadState m = Inr () \<and> screenshot m = Inr () \<and> sharpToFile m = Inr () \<and>
       unlink m = Inr () \<and> contextClose m = Inr ()"
  with a show "fst (takeSingleScreenshot m u d dir \<lparr>files = fs, calls = []\<rparr>)
           = Some (Fulfilled (successOutcome u d))"
    by (simp add: task_fst tryBlock_fst capture_fst cond_defs)
qed

text \<open>The page with a consent control, and the same page without one.\<close>

theorem consent_gates_scrolling_witness:
  "navigated obliging \<and> consentClicked obliging \<and> scrollLoopEnds obliging \<and>
   count_list (callsOf obliging ''https://a.test'' desktop ''shots'' {}) EvaluateAutoScroll = 1 \<and>
   filter isScrollCall (callsOf obliging ''https://a.test'' desktop ''shots'' {})
     = [EvaluateAutoScroll, EvaluateScrollTo 0 0] \<and>
   navigated (obliging\<lparr>waitForSelector := Inl ''Timeout 5000ms exceeded.''\<rparr>) \<and>
   count_list
     (callsOf (obliging\<lparr>waitForSelector := Inl ''Timeout 5000ms exceeded.''\<rparr>) ''https://a.test'' desktop ''shots'' {})
     EvaluateAutoScroll = 0 \<and>
   fst (takeSingleScreenshot (obliging\<lparr>waitForSelector := Inl ''Timeout 5000ms exceeded.''\<rparr>)
          ''https://a.test'' desktop ''shots'' \<lparr>files = {}, calls = []\<rparr>)
     = Some (Fulfilled (successOutcome ''https://a.test'' desktop))"
  using consent_gates_scrolling [of obliging "''https://a.test''" desktop "''shots''" "{}" "''''"]
    consent_gates_scrolling [of "obliging\<lparr>waitForSelector := Inl ''Timeout 5000ms exceeded.''\<rparr>"
      "''https://a.test''" desktop "''shots''" "{}" "''Timeout 5000ms exceeded.''"]
  by (simp add: obliging_def cond_defs autoScroll_1000)

text \<open>
  C6 as worded fails when the control is clicked and the call that scrolls to the bottom
  throws: the scroll to the bottom is made once, and the jump to the top never.
\<close>

theorem scroll_rejection_skips_jump_to_top:
  "navigated (obliging\<lparr>evaluateScroll := Inl ''Execution context was destroyed''\<rparr>) \<and>
   consentClicked (obliging\<lparr>evaluateScroll := Inl ''Execution context was destroyed''\<rparr>) \<and>
   count_list
     (callsOf (obliging\<lparr>evaluateScroll := Inl ''Execution context was destroyed''\<rparr>)
        ''https://a.test'' desktop ''shots'' {})
     EvaluateAutoScroll = 1 \<and>
   count_list
     (callsOf (obliging\<lparr>evaluateScroll := Inl ''Execution context was destroyed''\<rparr>)
        ''https://a.test'' desktop ''shots'' {})
     (EvaluateScrollTo 0 0) = 0 \<and>
   filter isScrollCall
     (callsOf (obliging\<lparr>evaluateScroll := Inl ''Execution context was destroyed''\<rparr>)
        ''https://a.test'' desktop ''shots'' {})
     = [EvaluateAutoScroll]"
proof -
  let ?m = "obliging\<lparr>evaluateScroll := Inl ''Execution context was destroyed''\<rparr>"
  let ?calls = "callsOf ?m ''https://a.test'' desktop ''shots'' {}"
  have c: "navigated ?m" "consentClicked ?m" "\<not> scrollLoopEnds ?m"
    by (simp_all add: obliging_def cond_defs)
  then have f: "filter isScrollCall ?calls = [EvaluateAutoScroll]"
    by (simp add: scroll_calls_of_task)
  have "count_list ?calls EvaluateAutoScroll = count_list (filter isScrollCall ?calls) EvaluateAutoScroll"
    by (rule count_scroll_calls) (simp add: isScrollCall_def)
  then have d: "count_list ?calls EvaluateAutoScroll = 1" by (simp only: f) simp
  have "count_list ?calls (EvaluateScrollTo 0 0)
      = count_list (filter isScrollCall ?calls) (EvaluateScrollTo 0 0)"
    by (rule count_scroll_calls) (simp add: isScrollCall_def)
  then have u: "count_list ?calls (EvaluateScrollTo 0 0) = 0" by (simp only: f) simp
  from c(1,2) d u f show ?thesis by blast
qed

section \<open>Printed numbers and joined paths\<close>

lemma digitChar_chars: "digitChar k \<in> set ''0123456789''"
  unfolding digitChar_def by (rule nth_mem) simp

lemma digitsOf_chars: "set (digitsOf n) \<subseteq> set ''0123456789''"
proof (induction n rule: digitsOf.induct)
  case (1 n)
  show ?case
  proof (cases "n < 10")
    case True
    then have "digitsOf n = [digitChar n]" by (simp add: digitsOf.simps)
    with digitChar_chars [of n] show ?thesis by simp
  next
    case False
    then have "digitsOf n = digitsOf (n div 10) @ [digitChar (n mod 10)]"
      by (subst digitsOf.simps) simp
    with 1 False digitChar_chars [of "n mod 10"] show ?thesis by simp
  qed
qed

lemma digitsOf_subset: "set ''0123456789'' \<subseteq> S \<Longrightarrow> set (digitsOf n) \<subseteq> S"
  using digitsOf_chars by (rule subset_trans)

lemma formatNumber_subset:
  assumes "set ''0123456789.e+'' \<subseteq> S"
  shows "set (formatNumber k n s) \<subseteq> S"
proof -
  from assms have d: "set ''0123456789'' \<subseteq> S"
    and o: "CHR ''0'' \<in> S" "CHR ''.'' \<in> S" "CHR ''e'' \<in> S" "CHR ''+'' \<in> S"
    by simp_all
  note a = digitsOf_subset [OF d, of s] and b = digitsOf_subset [OF d, of "n - 1"]
  have c: "set (case digitsOf s of [] \<Rightarrow> [] | c # cs \<Rightarrow> if cs = [] then [c] else c # CHR ''.'' # cs) \<subseteq> S"
    using a o(2) by (cases "digitsOf s") auto
  have r: "set (replicate (n - k) CHR ''0'') \<subseteq> S" using o(1) by auto
  show ?thesis
  proof (cases "n \<le> 21")
    case True
    with a r show ?thesis by (simp add: formatNumber_def)
  next
    case False
    with b c o show ?thesis by (simp add: formatNumber_def)
  qed
qed

lemma doubleToString_subset:
  assumes "set ''0123456789.e+Infinity'' \<subseteq> S"
  shows "set (doubleToString x) \<subseteq> S"
proof (cases "x \<ge> 2 ^ 1024")
  case True
  then have "doubleToString x = ''Infinity''" by (simp only: doubleToString_def if_True)
  with assms show ?thesis by simp
next
  case False
  then have d: "doubleToString x =
      (case shortestDigits x of None \<Rightarrow> digitsOf x | Some (k, n, s) \<Rightarrow> formatNumber k n s)"
    by (simp only: doubleToString_def if_False)
  from assms have s1: "set ''0123456789'' \<subseteq> S" and s2: "set ''0123456789.e+'' \<subseteq> S"
    by simp_all
  show ?thesis
  proof (cases "shortestDigits x")
    case None
    with digitsOf_subset [OF s1, of x] show ?thesis by (simp only: d option.case)
  next
    case (Some t)
    obtain k n s where "t = (k, n, s)" by (cases t)
    with Some formatNumber_subset [OF s2, of k n s] show ?thesis
      by (simp only: d option.case prod.case)
  qed
qed

lemma magnitudeToString_subset:
  assumes "set ''0123456789.e+Infinity'' \<subseteq> S"
  shows "set (magnitudeToString a) \<subseteq> S"
proof (cases "a \<le> 2 ^ 53 - 1")
  case True
  then have e: "magnitudeToString a = digitsOf a" by (simp only: magnitudeToString_def if_True)
  from assms have "set ''0123456789'' \<subseteq> S" by simp
  then show ?thesis unfolding e by (rule digitsOf_subset)
next
  case False
  then have e: "magnitudeToString a = doubleToString (toDouble a)"
    by (simp only: magnitudeToString_def if_False)
  from assms show ?thesis unfolding e by (rule doubleToString_subset)
qed

text \<open>Whatever the number, its string is made of these characters.\<close>

lemma numToString_subset:
  assumes "set ''-0123456789.e+Infinity'' \<subseteq> S"
  shows "set (numToString n) \<subseteq> S"
proof -
  from assms have m: "set ''0123456789.e+Infinity'' \<subseteq> S" and o: "CHR ''-'' \<in> S" by simp_all
  show ?thesis
  proof (cases "n < 0")
    case True
    then have e: "numToString n = CHR ''-'' # magnitudeToString (nat (- n))"
      by (simp only: numToString_def if_True)
    from magnitudeToString_subset [OF m, of "nat (- n)"] o show ?thesis unfolding e by simp
  next
    case False
    then have e: "numToString n = magnitudeToString (nat n)"
      by (simp only: numToString_def if_False)
    from m show ?thesis unfolding e by (rule magnitudeToString_subset)
  qed
qed

lemma numToString_no_separator: "CHR ''/'' \<notin> set (numToString n)"
  using numToString_subset [of "{c. c \<noteq> CHR ''/''}" n] by auto

text \<open>A safe integer is printed with all of its digits.\<close>

lemma numToString_safe:
  assumes "0 \<le> n" "n \<le> 9007199254740991"
  shows "numToString n = digitsOf (nat n)"
proof -
  from assms have "nat n \<le> 2 ^ 53 - 1" by simp
  then have "magnitudeToString (nat n) = digitsOf (nat n)"
    by (simp only: magnitudeToString_def if_True)
  with assms(1) show ?thesis by (simp add: numToString_def)
qed

lemma last_not_member: "b \<noteq> [] \<Longrightarrow> c \<notin> set b \<Longrightarrow> last b \<noteq> c"
  by (metis last_in_set)

lemma splitOn_not_Nil: "splitOn c s \<noteq> []"
  by (induction s) (auto split: list.splits)

lemma splitOn_plain: "c \<notin> set s \<Longrightarrow> splitOn c s = [s]"
  by (induction s) auto

lemma splitOn_append: "splitOn c (s @ c # r) = splitOn c s @ splitOn c r"
proof (induction s)
  case Nil
  show ?case by simp
next
  case (Cons x xs)
  obtain a as where "splitOn c xs = a # as"
    using splitOn_not_Nil [of c xs] by (cases "splitOn c xs") auto
  with Cons show ?case by simp
qed

lemma joinSegments_Cons: "ss \<noteq> [] \<Longrightarrow> joinSegments (s # ss) = s @ ''/'' @ joinSegments ss"
  by (cases ss) auto

lemma joinSegments_splitOn: "joinSegments (splitOn CHR ''/'' s) = s"
proof (induction s)
  case Nil
  show ?case by simp
next
  case (Cons x xs)
  obtain a as where a: "splitOn CHR ''/'' xs = a # as"
    using splitOn_not_Nil [of "CHR ''/''" xs] by (cases "splitOn CHR ''/'' xs") auto
  show ?case
  proof (cases "x = CHR ''/''")
    case True
    with Cons show ?thesis by (simp add: joinSegments_Cons splitOn_not_Nil)
  next
    case False
    with Cons a show ?thesis by (cases as) auto
  qed
qed

lemma joinSegments_snoc: "xs \<noteq> [] \<Longrightarrow> joinSegments (xs @ [b]) = joinSegments xs @ ''/'' @ b"
  by (induction xs rule: joinSegments.induct) auto

lemma foldl_plain:
  "list_all plainSegment segs \<Longrightarrow> foldl (normalizeStep f) st segs = st @ segs"
  by (induction segs arbitrary: st) (auto simp: normalizeStep_def plainSegment_def)

lemma normalizeStep_plain: "plainSegment b \<Longrightarrow> normalizeStep f st b = st @ [b]"
  by (auto simp: normalizeStep_def plainSegment_def)

lemma normalizePath_eq:
  assumes "p \<noteq> []"
    and "foldl (normalizeStep (hd p \<noteq> CHR ''/'')) [] (splitOn CHR ''/'' p) = st"
    and "joinSegments st \<noteq> []"
  shows "normalizePath p =
    (if hd p = CHR ''/'' then ''/'' else []) @ joinSegments st @
    (if last p = CHR ''/'' then ''/'' else [])"
  using assms by (simp add: normalizePath_def normalizeString_def Let_def)

lemma pathJoin_eq:
  assumes "a \<noteq> []" "b \<noteq> []"
  shows "pathJoin a b = normalizePath (a @ ''/'' @ b)"
  using assms by (simp add: pathJoin_def Let_def)

text \<open>
  Joining a plain segment to an absolute path that is already normal appends it after
  a separator, and the result is again such a path.
\<close>

lemma pathJoin_normalAbsolute:
  assumes "normalAbsolute root" "plainSegment b"
  shows "pathJoin root b = root @ ''/'' @ b"
proof -
  let ?p = "root @ ''/'' @ b"
  from assms(1) obtain t ss where sp: "splitOn CHR ''/'' root = [] # t # ss"
    and pl: "list_all plainSegment (t # ss)"
    by (auto simp: normalAbsolute_def split: list.splits)
  from sp have ne: "root \<noteq> []" by auto
  with sp have hd: "hd root = CHR ''/''" by (cases root) (auto split: if_splits list.splits)
  from assms(2) have b: "b \<noteq> []" "CHR ''/'' \<notin> set b" by (simp_all add: plainSegment_def)
  from b have l: "last b \<noteq> CHR ''/''" by (rule last_not_member)
  have split: "splitOn CHR ''/'' ?p = [] # (t # ss) @ [b]"
    using splitOn_append [of "CHR ''/''" root b] sp splitOn_plain [OF b(2)] by simp
  have e: "normalizeStep False [] [] = []" by (simp add: normalizeStep_def)
  have "list_all plainSegment ((t # ss) @ [b])" using pl assms(2) by simp
  from foldl_plain [OF this, of False "[]"]
  have st: "foldl (normalizeStep False) [] (splitOn CHR ''/'' ?p) = (t # ss) @ [b]"
    by (simp only: split foldl_Cons e append_Nil)
  have hp: "hd ?p = CHR ''/''" "last ?p \<noteq> CHR ''/''" "?p \<noteq> []" using ne hd l b by simp_all
  from st hp(1)
  have st': "foldl (normalizeStep (hd ?p \<noteq> CHR ''/'')) [] (splitOn CHR ''/'' ?p) = (t # ss) @ [b]"
    by simp
  have j: "joinSegments ([] # t # ss) = root" using joinSegments_splitOn [of root] sp by simp
  then have j': "''/'' @ joinSegments (t # ss) = root" by simp
  have sn: "joinSegments ((t # ss) @ [b]) = joinSegments (t # ss) @ ''/'' @ b"
    by (rule joinSegments_snoc) simp
  then have n: "joinSegments ((t # ss) @ [b]) \<noteq> []" by simp
  from sn j' have k: "''/'' @ joinSegments ((t # ss) @ [b]) = ?p" by (metis append_assoc)
  have "pathJoin root b = normalizePath ?p" using ne b(1) by (rule pathJoin_eq)
  also have "\<dots> = ''/'' @ joinSegments ((t # ss) @ [b])"
    using normalizePath_eq [OF hp(3) st' n] hp(1,2) by simp
  also note k
  finally show ?thesis .
qed

lemma normalAbsolute_join:
  assumes "normalAbsolute root" "plainSegment b"
  shows "normalAbsolute (root @ ''/'' @ b)"
proof -
  from assms(1) obtain t ss where sp: "splitOn CHR ''/'' root = [] # t # ss"
    and pl: "list_all plainSegment (t # ss)"
    by (auto simp: normalAbsolute_def split: list.splits)
  from assms(2) have b: "CHR ''/'' \<notin> set b" by (simp add: plainSegment_def)
  have "splitOn CHR ''/'' (root @ ''/'' @ b) = [] # (t # ss) @ [b]"
    using splitOn_append [of "CHR ''/''" root b] sp splitOn_plain [OF b] by simp
  with pl assms(2) show ?thesis by (simp add: normalAbsolute_def)
qed

text \<open>Whatever it is joined to, a plain segment is the last segment of the result.\<close>

lemma pathJoin_suffix:
  assumes "plainSegment b"
  shows "\<exists>P. pathJoin a b = P @ b \<and> (P = [] \<or> last P = CHR ''/'')"
proof -
  from assms have b: "b \<noteq> []" "CHR ''/'' \<notin> set b" by (simp_all add: plainSegment_def)
  from b have lb: "last b \<noteq> CHR ''/''" by (rule last_not_member)
  define joined where "joined = (if a = [] then b else a @ ''/'' @ b)"
  define pre where "pre = (if a = [] then [] else splitOn CHR ''/'' a)"
  have j: "pathJoin a b = normalizePath joined" "joined \<noteq> []" "last joined \<noteq> CHR ''/''"
    using b lb by (auto simp: pathJoin_def joined_def Let_def)
  have sp: "splitOn CHR ''/'' joined = pre @ [b]"
    using splitOn_append [of "CHR ''/''" a b] splitOn_plain [OF b(2)]
    by (simp add: joined_def pre_def)
  define st where "st = foldl (normalizeStep (hd joined \<noteq> CHR ''/'')) [] pre"
  have fo: "foldl (normalizeStep (hd joined \<noteq> CHR ''/'')) [] (splitOn CHR ''/'' joined) = st @ [b]"
    by (simp add: sp st_def normalizeStep_plain [OF assms])
  have js: "joinSegments (st @ [b]) = (if st = [] then b else joinSegments st @ ''/'' @ b)"
    by (simp add: joinSegments_snoc)
  then have jne: "joinSegments (st @ [b]) \<noteq> []" using b by auto
  define P where "P = (if hd joined = CHR ''/'' then ''/'' else []) @
      (if st = [] then [] else joinSegments st @ ''/'')"
  have "normalizePath joined = P @ b"
    using normalizePath_eq [OF j(2) fo jne] j(3) by (simp add: js P_def)
  moreover have "P = [] \<or> last P = CHR ''/''" by (simp add: P_def)
  ultimately show ?thesis using j(1) by metis
qed

lemma lastSegment_suffix:
  assumes "CHR ''/'' \<notin> set b" "P = [] \<or> last P = CHR ''/''"
  shows "lastSegment (P @ b) = b"
proof -
  from assms(1) have a: "\<And>x. x \<in> set (rev b) \<Longrightarrow> x \<noteq> CHR ''/''" by auto
  from assms(2) have "takeWhile (\<lambda>c. c \<noteq> CHR ''/'') (rev P) = []"
    by (cases P rule: rev_cases) simp_all
  with takeWhile_append2 [of "rev b" "\<lambda>c. c \<noteq> CHR ''/''" "rev P"] a
  have "takeWhile (\<lambda>c. c \<noteq> CHR ''/'') (rev b @ rev P) = rev b"
    by simp
  then show ?thesis by (simp add: lastSegment_def)
qed

lemma lastSegment_pathJoin:
  assumes "plainSegment b"
  shows "lastSegment (pathJoin a b) = b"
proof -
  from pathJoin_suffix [OF assms, of a] obtain P
    where P: "pathJoin a b = P @ b" "P = [] \<or> last P = CHR ''/''" by blast
  from assms have "CHR ''/'' \<notin> set b" by (simp add: plainSegment_def)
  from lastSegment_suffix [OF this P(2)] P(1) show ?thesis by simp
qed

text \<open>
  The folder name of a run is a plain segment at every reading of the clock, and it is
  not the name of the output directory.
\<close>

lemma padStart_subset: "c \<in> S \<Longrightarrow> set t \<subseteq> S \<Longrightarrow> set (padStart n c t) \<subseteq> S"
  by (auto simp: padStart_def)

lemma currentDateTime_subset:
  assumes "set ''-0123456789.e+Infinity_'' \<subseteq> S"
  shows "set (currentDateTime now) \<subseteq> S"
proof -
  from assms have n: "set ''-0123456789.e+Infinity'' \<subseteq> S" and d: "set ''0123456789'' \<subseteq> S"
    and o: "CHR ''-'' \<in> S" "CHR ''_'' \<in> S" "CHR ''0'' \<in> S"
    by simp_all
  have p: "set (padStart 2 CHR ''0'' (digitsOf j)) \<subseteq> S" for j
    using o(3) digitsOf_subset [OF d] by (rule padStart_subset)
  from numToString_subset [OF n, of "fullYear now"] o
    p [of "month now + 1"] p [of "date now"] p [of "hours now"] p [of "minutes now"]
  show ?thesis by (simp add: currentDateTime_def)
qed

lemma currentDateTime_plain: "plainSegment (currentDateTime now)"
proof -
  have "set (currentDateTime now) \<subseteq> {c. c \<noteq> CHR ''/''}"
    by (rule currentDateTime_subset) simp
  then have a: "CHR ''/'' \<notin> set (currentDateTime now)" by auto
  have "CHR ''-'' \<in> set (currentDateTime now)" by (simp add: currentDateTime_def)
  then have "currentDateTime now \<noteq> []" "currentDateTime now \<noteq> ''.''" "currentDateTime now \<noteq> ''..''"
    by auto
  with a show ?thesis by (simp add: plainSegment_def)
qed

lemma run_directory_differs: "dateTimeDir (outputDirOf dirname) now \<noteq> outputDirOf dirname"
proof
  assume "dateTimeDir (outputDirOf dirname) now = outputDirOf dirname"
  then have "lastSegment (pathJoin (outputDirOf dirname) (currentDateTime now))
      = lastSegment (pathJoin dirname ''_emp-screenshots'')"
    by (simp add: dateTimeDir_def outputDirOf_def)
  moreover have "plainSegment ''_emp-screenshots''" by (simp add: plainSegment_def)
  ultimately have e: "currentDateTime now = ''_emp-screenshots''"
    by (simp add: lastSegment_pathJoin currentDateTime_plain)
  have "set (currentDateTime now) \<subseteq> {c. c \<noteq> CHR ''p''}"
    by (rule currentDateTime_subset) simp
  with e show False by simp
qed

text \<open>
  Normalising an absolute path leaves plain segments only, so joining a plain segment to
  any absolute path gives an absolute path in normal form.
\<close>

lemma splitOn_no_separator: "s \<in> set (splitOn c p) \<Longrightarrow> c \<notin> set s"
proof (induction p arbitrary: s)
  case Nil
  then show ?case by simp
next
  case (Cons x xs)
  obtain a as where a: "splitOn c xs = a # as"
    using splitOn_not_Nil [of c xs] by (cases "splitOn c xs") auto
  with Cons show ?case by (auto split: if_splits)
qed

lemma splitOn_joinSegments:
  "segs \<noteq> [] \<Longrightarrow> list_all plainSegment segs \<Longrightarrow> splitOn CHR ''/'' (joinSegments segs) = segs"
proof (induction segs rule: joinSegments.induct)
  case 1
  then show ?case by simp
next
  case (2 s)
  then show ?case by (simp add: splitOn_plain plainSegment_def)
next
  case (3 s t ss)
  then have "splitOn CHR ''/'' (joinSegments (t # ss)) = t # ss" by simp
  moreover from 3 have "CHR ''/'' \<notin> set s" by (simp add: plainSegment_def)
  ultimately show ?case
    using splitOn_append [of "CHR ''/''" s "joinSegments (t # ss)"] by (simp add: splitOn_plain)
qed

lemma normalizeStep_keeps_plain:
  assumes "list_all plainSegment st" "CHR ''/'' \<notin> set seg"
  shows "list_all plainSegment (normalizeStep False st seg)"
proof -
  have "list_all plainSegment (butlast st)"
    using assms(1) by (auto simp: list_all_iff dest: in_set_butlastD)
  with assms show ?thesis by (auto simp: normalizeStep_def plainSegment_def)
qed

lemma foldl_keeps_plain:
  "list_all plainSegment st \<Longrightarrow> \<forall>s \<in> set segs. CHR ''/'' \<notin> set s \<Longrightarrow>
   list_all plainSegment (foldl (normalizeStep False) st segs)"
  by (induction segs arbitrary: st) (simp_all add: normalizeStep_keeps_plain)

lemma normalAbsolute_segments:
  assumes "segs \<noteq> []" "list_all plainSegment segs"
  shows "normalAbsolute (''/'' @ joinSegments segs)"
proof -
  from splitOn_joinSegments [OF assms]
  have "splitOn CHR ''/'' (''/'' @ joinSegments segs) = [] # segs" by simp
  with assms show ?thesis by (cases segs) (simp_all add: normalAbsolute_def)
qed

lemma pathJoin_absolute:
  assumes "a \<noteq> []" "hd a = CHR ''/''" "plainSegment b"
  shows "normalAbsolute (pathJoin a b)"
proof -
  let ?p = "a @ ''/'' @ b"
  from assms(3) have b: "b \<noteq> []" "CHR ''/'' \<notin> set b" by (simp_all add: plainSegment_def)
  from b have lb: "last b \<noteq> CHR ''/''" by (rule last_not_member)
  define st where "st = foldl (normalizeStep False) [] (splitOn CHR ''/'' a)"
  have pl: "list_all plainSegment st"
    unfolding st_def by (rule foldl_keeps_plain) (simp_all add: splitOn_no_separator)
  have sp: "splitOn CHR ''/'' ?p = splitOn CHR ''/'' a @ [b]"
    using splitOn_append [of "CHR ''/''" a b] splitOn_plain [OF b(2)] by simp
  have hp: "?p \<noteq> []" "hd ?p = CHR ''/''" "last ?p \<noteq> CHR ''/''"
    using assms(1,2) b lb by simp_all
  have "foldl (normalizeStep False) [] (splitOn CHR ''/'' ?p) = st @ [b]"
    by (simp only: sp foldl_append st_def [symmetric] foldl_Cons foldl_Nil normalizeStep_plain [OF assms(3)])
  with hp(2)
  have fo: "foldl (normalizeStep (hd ?p \<noteq> CHR ''/'')) [] (splitOn CHR ''/'' ?p) = st @ [b]"
    by simp
  have jne: "joinSegments (st @ [b]) \<noteq> []"
    using b(1) by (cases "st = []") (simp_all add: joinSegments_snoc)
  have "pathJoin a b = normalizePath ?p" using assms(1) b(1) by (rule pathJoin_eq)
  also have "\<dots> = ''/'' @ joinSegments (st @ [b])"
    using normalizePath_eq [OF hp(1) fo jne] hp(2,3) by simp
  finally have e: "pathJoin a b = ''/'' @ joinSegments (st @ [b])" .
  have "normalAbsolute (''/'' @ joinSegments (st @ [b]))"
    by (rule normalAbsolute_segments) (simp_all add: pl assms(3))
  then show ?thesis by (simp only: e)
qed

text \<open>
  Node gives the directory of the script as an absolute path, and the output directory
  under it is then an absolute path in normal form.
\<close>

lemma outputDirOf_absolute:
  assumes "dirname \<noteq> []" "hd dirname = CHR ''/''"
  shows "normalAbsolute (outputDirOf dirname)"
  unfolding outputDirOf_def using assms by (rule pathJoin_absolute) (simp add: plainSegment_def)

text \<open>The output directory and the folder of a run, under a normal absolute directory.\<close>

lemma outputDirOf_normal:
  assumes "normalAbsolute dirname"
  shows "outputDirOf dirname = dirname @ ''/_emp-screenshots''"
    and "normalAbsolute (outputDirOf dirname)"
proof -
  have p: "plainSegment ''_emp-screenshots''" by (simp add: plainSegment_def)
  from pathJoin_normalAbsolute [OF assms p]
  show e: "outputDirOf dirname = dirname @ ''/_emp-screenshots''" by (simp add: outputDirOf_def)
  from normalAbsolute_join [OF assms p] show "normalAbsolute (outputDirOf dirname)"
    by (simp add: e)
qed

lemma dateTimeDir_normal:
  assumes "normalAbsolute root"
  shows "dateTimeDir root now = root @ ''/'' @ currentDateTime now"
    and "normalAbsolute (dateTimeDir root now)"
proof -
  from pathJoin_normalAbsolute [OF assms currentDateTime_plain]
  show e: "dateTimeDir root now = root @ ''/'' @ currentDateTime now" by (simp add: dateTimeDir_def)
  from normalAbsolute_join [OF assms currentDateTime_plain, of now]
  show "normalAbsolute (dateTimeDir root now)" by (simp only: e)
qed

text \<open>The file name of a screenshot is a plain segment unless the device name has a separator.\<close>

lemma urlFilename_no_separator: "CHR ''/'' \<notin> set (urlFilename u)"
  by (auto simp: urlFilename_def replaceNonAlnum_map isAlnum_def inRange_def)

lemma fieldToString_no_separator: "CHR ''/'' \<notin> set (fieldToString w)"
  by (cases w) (simp_all add: numToString_no_separator)

lemma fileName_plain:
  assumes "CHR ''/'' \<notin> set nm"
  shows "plainSegment (urlFilename u @ ''_'' @ nm @ ''_'' @ fieldToString w @ ''.png'')"
proof -
  let ?f = "urlFilename u @ ''_'' @ nm @ ''_'' @ fieldToString w @ ''.png''"
  from assms urlFilename_no_separator [of u] fieldToString_no_separator [of w]
  have a: "CHR ''/'' \<notin> set ?f" by simp
  have "CHR ''p'' \<in> set ?f" by simp
  then have "?f \<noteq> []" "?f \<noteq> ''.''" "?f \<noteq> ''..''" by auto
  with a show ?thesis unfolding plainSegment_def by blast
qed

lemma screenshotPath_normal:
  assumes "normalAbsolute root" and "CHR ''/'' \<notin> set (toString (name d))"
  shows "screenshotPath (dateTimeDir root now) u d =
    (root @ ''/'' @ currentDateTime now @ ''/'' @ urlFilename u @ ''_'' @
     toString (name d) @ ''_'' @ fieldToString (width d)) @ ''.png''"
proof -
  note f = fileName_plain [OF assms(2), of u "width d"]
  from pathJoin_normalAbsolute [OF dateTimeDir_normal(2) [OF assms(1)] f, of now]
  show ?thesis by (simp add: screenshotPath_def dateTimeDir_normal(1) [OF assms(1)])
qed

section \<open>The artifact of a successful task\<close>

lemma isDigit_digitChar: "isDigit (digitChar k)"
proof -
  define j where "j = k mod 10"
  then have "j < 10" by simp
  then have "j = 0 \<or> j = 1 \<or> j = 2 \<or> j = 3 \<or> j = 4 \<or> j = 5 \<or> j = 6 \<or> j = 7 \<or> j = 8 \<or> j = 9"
    by arith
  then have "isDigit (''0123456789'' ! j)"
    by (elim disjE) (simp_all add: isDigit_def inRange_def)
  then show ?thesis by (simp add: digitChar_def j_def)
qed

lemma digitsOf_1: "n < 10 \<Longrightarrow> digitsOf n = [digitChar n]"
  by (simp add: digitsOf.simps)

lemma digitsOf_2: "10 \<le> n \<Longrightarrow> n < 100 \<Longrightarrow> digitsOf n = [digitChar (n div 10), digitChar (n mod 10)]"
  by (subst digitsOf.simps) (simp add: digitsOf_1)

lemma digitsOf_3:
  "100 \<le> n \<Longrightarrow> n < 1000 \<Longrightarrow>
   digitsOf n = [digitChar (n div 10 div 10), digitChar (n div 10 mod 10), digitChar (n mod 10)]"
  by (subst digitsOf.simps) (simp add: digitsOf_2)

lemma digitsOf_4:
  "1000 \<le> n \<Longrightarrow> n < 10000 \<Longrightarrow>
   digitsOf n = [digitChar (n div 10 div 10 div 10), digitChar (n div 10 div 10 mod 10),
                 digitChar (n div 10 mod 10), digitChar (n mod 10)]"
  by (subst digitsOf.simps) (simp add: digitsOf_3)

lemma pad2:
  assumes "n < 100"
  shows "\<exists>a b. padStart 2 CHR ''0'' (digitsOf n) = [a, b] \<and> isDigit a \<and> isDigit b"
proof (cases "n < 10")
  case True
  then have "padStart 2 CHR ''0'' (digitsOf n) = [CHR ''0'', digitChar n]"
    by (simp add: padStart_def digitsOf_1)
  moreover have "isDigit CHR ''0''" by (simp add: isDigit_def inRange_def)
  ultimately show ?thesis using isDigit_digitChar by blast
next
  case False
  with assms have "padStart 2 CHR ''0'' (digitsOf n) = [digitChar (n div 10), digitChar (n mod 10)]"
    by (simp add: padStart_def digitsOf_2)
  then show ?thesis using isDigit_digitChar by blast
qed

lemma year4:
  assumes "1000 \<le> y" "y \<le> 9999"
  shows "\<exists>a b c e. numToString y = [a, b, c, e] \<and> isDigit a \<and> isDigit b \<and> isDigit c \<and> isDigit e"
proof -
  from assms have "1000 \<le> nat y" "nat y < 10000" by linarith+
  from digitsOf_4 [OF this] have "numToString y =
      [digitChar (nat y div 10 div 10 div 10), digitChar (nat y div 10 div 10 mod 10),
       digitChar (nat y div 10 mod 10), digitChar (nat y mod 10)]"
    using assms by (simp add: numToString_safe)
  then show ?thesis using isDigit_digitChar by blast
qed

lemma timestamp_shape:
  assumes "calendarTime now"
  shows "isTimestamp (currentDateTime now)"
proof -
  from assms have y: "1000 \<le> fullYear now" "fullYear now \<le> 9999"
    and mo: "month now + 1 < 100" and da: "date now < 100"
    and ho: "hours now < 100" and mi: "minutes now < 100"
    by (simp_all add: calendarTime_def)
  from year4 [OF y] obtain y1 y2 y3 y4 where
    yy: "numToString (fullYear now) = [y1, y2, y3, y4]" "isDigit y1" "isDigit y2" "isDigit y3" "isDigit y4"
    by blast
  from pad2 [OF mo] obtain m1 m2 where
    mm: "padStart 2 CHR ''0'' (digitsOf (month now + 1)) = [m1, m2]" "isDigit m1" "isDigit m2" by blast
  from pad2 [OF da] obtain d1 d2 where
    dd: "padStart 2 CHR ''0'' (digitsOf (date now)) = [d1, d2]" "isDigit d1" "isDigit d2" by blast
  from pad2 [OF ho] obtain h1 h2 where
    hh: "padStart 2 CHR ''0'' (digitsOf (hours now)) = [h1, h2]" "isDigit h1" "isDigit h2" by blast
  from pad2 [OF mi] obtain i1 i2 where
    ii: "padStart 2 CHR ''0'' (digitsOf (minutes now)) = [i1, i2]" "isDigit i1" "isDigit i2" by blast
  have "currentDateTime now =
      [y1, y2, y3, y4, CHR ''-'', m1, m2, CHR ''-'', d1, d2, CHR ''_'', h1, h2, i1, i2]"
    unfolding currentDateTime_def yy mm dd hh ii by simp
  with yy mm dd hh ii show ?thesis by (simp add: isTimestamp_def)
qed

lemma digitChar_mod: "digitChar (k mod 10) = digitChar k"
  by (simp add: digitChar_def)

lemma pad2_twoDigits:
  assumes "n < 100"
  shows "padStart 2 CHR ''0'' (digitsOf n) = twoDigits n"
proof (cases "n < 10")
  case True
  then show ?thesis by (simp add: padStart_def digitsOf_1 twoDigits_def digitChar_def)
next
  case False
  with assms show ?thesis by (simp add: padStart_def digitsOf_2 twoDigits_def)
qed

text \<open>At a calendar time of a four-digit year the folder name is the one the specification words.\<close>

lemma timestamp_value:
  assumes "calendarTime now"
  shows "currentDateTime now = timestampSpec now"
proof -
  from assms have y: "0 \<le> fullYear now" "fullYear now \<le> 9007199254740991"
    and mo: "month now + 1 < 100" and da: "date now < 100"
    and ho: "hours now < 100" and mi: "minutes now < 100"
    by (simp_all add: calendarTime_def)
  from assms have "1000 \<le> fullYear now" "fullYear now \<le> 9999" by (simp_all add: calendarTime_def)
  then have y4: "1000 \<le> nat (fullYear now)" "nat (fullYear now) < 10000" by linarith+
  have d: "nat (fullYear now) div 10 div 10 = nat (fullYear now) div 100"
    "nat (fullYear now) div 100 div 10 = nat (fullYear now) div 1000"
    by (simp_all add: div_mult2_eq [symmetric])
  have "numToString (fullYear now) =
      [digitChar (nat (fullYear now) div 10 div 10 div 10),
       digitChar (nat (fullYear now) div 10 div 10 mod 10),
       digitChar (nat (fullYear now) div 10 mod 10), digitChar (nat (fullYear now) mod 10)]"
    by (simp only: numToString_safe [OF y] digitsOf_4 [OF y4])
  then have "numToString (fullYear now) =
      [digitChar (nat (fullYear now) div 1000), digitChar (nat (fullYear now) div 100),
       digitChar (nat (fullYear now) div 10), digitChar (nat (fullYear now))]"
    by (simp only: digitChar_mod d)
  then show ?thesis
    unfolding currentDateTime_def timestampSpec_def
      pad2_twoDigits [OF mo] pad2_twoDigits [OF da] pad2_twoDigits [OF ho] pad2_twoDigits [OF mi]
    by simp
qed

lemma replacePngSuffix_png: "replacePngSuffix (x @ ''.png'') = x @ ''.webp''"
  by (simp add: replacePngSuffix_def)

lemma capture_files:
  "files (snd (captureAndConvert m dir u d s)) =
    (case waitForLoadState m of Inl e \<Rightarrow> files s | Inr _ \<Rightarrow>
    (case screenshot m of Inl e \<Rightarrow> files s | Inr _ \<Rightarrow>
    (case sharpToFile m of Inl e \<Rightarrow> insert (screenshotPath dir u d) (files s) | Inr _ \<Rightarrow>
    (case unlink m of
       Inl e \<Rightarrow> insert (replacePngSuffix (screenshotPath dir u d)) (insert (screenshotPath dir u d) (files s))
     | Inr _ \<Rightarrow> insert (replacePngSuffix (screenshotPath dir u d)) (insert (screenshotPath dir u d) (files s))
                  - {screenshotPath dir u d}))))"
  by (simp add: captureAndConvert_def step_defs Let_def split: sum.splits)

lemma task_files:
  "files (snd (takeSingleScreenshot m u d dir s)) = files (snd (tryBlock m u d dir s))"
proof (cases "tryBlock m u d dir s")
  case (Pair r s1)
  then show ?thesis
    by (cases r) (simp_all add: task_defs Let_def split: sum.splits)
qed

lemma capture_fileCalls:
  "filter isFileCall (calls (snd (captureAndConvert m dir u d s))) =
   filter isFileCall (calls s) @
    (case waitForLoadState m of Inl e \<Rightarrow> [] | Inr _ \<Rightarrow>
      Screenshot (screenshotPath dir u d) #
      (case screenshot m of Inl e \<Rightarrow> [] | Inr _ \<Rightarrow>
        SharpToFile (screenshotPath dir u d) (replacePngSuffix (screenshotPath dir u d)) #
        (case sharpToFile m of Inl e \<Rightarrow> [] | Inr _ \<Rightarrow> [Unlink (screenshotPath dir u d)])))"
  by (simp add: captureAndConvert_def step_defs Let_def split: sum.splits)

lemma task_fileCalls:
  "filter isFileCall (calls (snd (takeSingleScreenshot m u d dir s))) =
   filter isFileCall (calls (snd (tryBlock m u d dir s)))"
proof (cases "tryBlock m u d dir s")
  case (Pair r s1)
  then show ?thesis
    by (cases r) (simp_all add: task_defs Let_def split: sum.splits)
qed

lemma task_success:
  assumes "fst (takeSingleScreenshot m u d dir s) = Some (Fulfilled r)" "status r = fulfilled"
  shows "navigated m \<and> scrolled m \<and> waitForLoadState m = Inr () \<and> screenshot m = Inr () \<and>
         sharpToFile m = Inr () \<and> unlink m = Inr () \<and> r = successOutcome u d"
  using assms
  by (auto simp: task_fst tryBlock_fst capture_fst cond_defs failureOutcome_def successOutcome_def
      split: sum.splits option.splits completion.splits if_splits)

lemma tryBlock_reaches_capture:
  assumes "navigated m" "scrolled m"
  shows "tryBlock m u d dir s =
    captureAndConvert m dir u d
      (s\<lparr>calls := calls s @
         [NewContext (width d) (height d) (userAgentToUse d), NewPage, Goto u 60000,
          WaitForSelector acceptButtonSelector 5000] @
         (if waitForSelector m = Inr () then [Click acceptButtonSelector] else []) @
         (if consentClicked m then [EvaluateAutoScroll, EvaluateScrollTo 0 0] else [])\<rparr>)"
proof (cases "consentClicked m")
  case True
  with assms obtain h n where "evaluateScroll m = Inr h" "autoScroll h 0 0 = Some n"
      "evaluateScrollTo m = Inr ()"
    by (auto simp: scrolled_def scrollLoopEnds_def split: sum.splits)
  with assms(1) True show ?thesis
    by (simp add: tryBlock_def handleCookieConsent_def scrollDownAndUp_def evaluateAutoScroll_def
          step_defs navigated_def consentClicked_def)
next
  case False
  with assms(1) show ?thesis
    by (auto simp: tryBlock_def handleCookieConsent_def scrollDownAndUp_def
          step_defs navigated_def consentClicked_def split: sum.splits)
qed

text \<open>
  C8, as the code has it. The output directory is an absolute path in normal form (the
  one of the program is, by \<open>outputDirOf_absolute\<close>), and the device name has no path
  separator in it. Then a task that returns a success outcome leaves exactly one new
  file, at \<open>root/timestamp/slug_name_width.webp\<close>, and the \<^verbatim>\<open>.png\<close> of the same stem
  does not exist afterwards: it is written by the screenshot, read by the re-encoding
  and then deleted, in this order. At every calendar time of a four-digit year the
  timestamp has the shape \<^verbatim>\<open>YYYY-MM-DD_HHMM\<close> and is the year, the month counted from
  1, the day, the hour and the minute of the clock.
\<close>

theorem successful_task_artifact:
  assumes "fst (takeSingleScreenshot m u d (dateTimeDir root now) \<lparr>files = fs, calls = []\<rparr>)
             = Some (Fulfilled r)"
    and "status r = fulfilled"
    and "normalAbsolute root"
    and "CHR ''/'' \<notin> set (toString (name d))"
  shows "files (snd (takeSingleScreenshot m u d (dateTimeDir root now) \<lparr>files = fs, calls = []\<rparr>))
           = insert (root @ ''/'' @ currentDateTime now @ ''/'' @ urlFilename u @ ''_'' @
                     toString (name d) @ ''_'' @ fieldToString (width d) @ ''.webp'')
               (fs - {root @ ''/'' @ currentDateTime now @ ''/'' @ urlFilename u @ ''_'' @
                      toString (name d) @ ''_'' @ fieldToString (width d) @ ''.png''}) \<and>
         filter isFileCall (callsOf m u d (dateTimeDir root now) fs)
           = [Screenshot (root @ ''/'' @ currentDateTime now @ ''/'' @ urlFilename u @ ''_'' @
                          toString (name d) @ ''_'' @ fieldToString (width d) @ ''.png''),
              SharpToFile (root @ ''/'' @ currentDateTime now @ ''/'' @ urlFilename u @ ''_'' @
                           toString (name d) @ ''_'' @ fieldToString (width d) @ ''.png'')
                          (root @ ''/'' @ currentDateTime now @ ''/'' @ urlFilename u @ ''_'' @
                           toString (name d) @ ''_'' @ fieldToString (width d) @ ''.webp''),
              Unlink (root @ ''/'' @ currentDateTime now @ ''/'' @ urlFilename u @ ''_'' @
                      toString (name d) @ ''_'' @ fieldToString (width d) @ ''.png'')] \<and>
         (calendarTime now \<longrightarrow>
            isTimestamp (currentDateTime now) \<and> currentDateTime now = timestampSpec now)"
proof -
  let ?dir = "dateTimeDir root now"
  let ?s = "\<lparr>files = fs, calls = []\<rparr>"
  let ?stem = "root @ ''/'' @ currentDateTime now @ ''/'' @ urlFilename u @ ''_'' @
               toString (name d) @ ''_'' @ fieldToString (width d)"
  have png: "screenshotPath ?dir u d = ?stem @ ''.png''"
    using screenshotPath_normal [OF assms(3,4), of now u] by simp
  have webp: "replacePngSuffix (screenshotPath ?dir u d) = ?stem @ ''.webp''"
    by (simp only: png replacePngSuffix_png)
  have ne: "?stem @ ''.webp'' \<noteq> ?stem @ ''.png''" by simp
  from task_success [OF assms(1,2)] have ok: "navigated m" "scrolled m" "waitForLoadState m = Inr ()"
    "screenshot m = Inr ()" "sharpToFile m = Inr ()" "unlink m = Inr ()" by simp_all
  have "files (snd (takeSingleScreenshot m u d ?dir ?s))
      = insert (replacePngSuffix (screenshotPath ?dir u d)) (insert (screenshotPath ?dir u d) fs)
          - {screenshotPath ?dir u d}"
    by (simp add: task_files tryBlock_reaches_capture [OF ok(1,2)] capture_files ok)
  then have "files (snd (takeSingleScreenshot m u d ?dir ?s))
      = insert (?stem @ ''.webp'') (insert (screenshotPath ?dir u d) fs) - {screenshotPath ?dir u d}"
    by (simp only: webp)
  then have "files (snd (takeSingleScreenshot m u d ?dir ?s))
      = insert (?stem @ ''.webp'') (insert (?stem @ ''.png'') fs) - {?stem @ ''.png''}"
    by (simp only: png)
  also have "\<dots> = insert (?stem @ ''.webp'') (fs - {?stem @ ''.png''})"
    using ne by blast
  finally have f: "files (snd (takeSingleScreenshot m u d ?dir ?s))
      = insert (?stem @ ''.webp'') (fs - {?stem @ ''.png''})" .
  have "filter isFileCall (callsOf m u d ?dir fs)
      = [Screenshot (screenshotPath ?dir u d),
         SharpToFile (screenshotPath ?dir u d) (replacePngSuffix (screenshotPath ?dir u d)),
         Unlink (screenshotPath ?dir u d)]"
    by (simp add: callsOf_def task_fileCalls tryBlock_reaches_capture [OF ok(1,2)] capture_fileCalls ok)
  then have "filter isFileCall (callsOf m u d ?dir fs)
      = [Screenshot (screenshotPath ?dir u d),
         SharpToFile (screenshotPath ?dir u d) (?stem @ ''.webp''),
         Unlink (screenshotPath ?dir u d)]"
    by (simp only: webp)
  then have c: "filter isFileCall (callsOf m u d ?dir fs)
      = [Screenshot (?stem @ ''.png''), SharpToFile (?stem @ ''.png'') (?stem @ ''.webp''),
         Unlink (?stem @ ''.png'')]"
    by (simp only: png)
  from f c timestamp_shape timestamp_value show ?thesis by simp
qed

text \<open>The end-to-end scenario of the specification, on the 9th of January 2025 at 07:05.\<close>

lemma currentDateTime_morning: "currentDateTime morning = ''2025-01-09_0705''"
proof -
  have "calendarTime morning" by (simp add: calendarTime_def morning_def)
  then have "currentDateTime morning = timestampSpec morning" by (rule timestamp_value)
  then show ?thesis by (simp add: timestampSpec_def twoDigits_def morning_def digitChar_def)
qed

lemma urlFilename_a_test: "urlFilename ''https://a.test'' = ''a_test''"
  by (simp add: urlFilename_def replaceScheme_def matchScheme_def isAlnum_def inRange_def)

lemma numToString_1280: "numToString 1280 = ''1280''"
  by (simp add: numToString_safe digitsOf.simps digitChar_def)

lemma normalAbsolute_app: "normalAbsolute ''/app''" "normalAbsolute ''/app/_emp-screenshots''"
  by (simp_all add: normalAbsolute_def plainSegment_def)

lemma outputDirOf_app: "outputDirOf ''/app'' = ''/app/_emp-screenshots''"
  using outputDirOf_normal(1) [OF normalAbsolute_app(1)] by simp

theorem successful_task_artifact_witness:
  "fst (takeSingleScreenshot obliging ''https://a.test'' desktop (dateTimeDir ''/app/_emp-screenshots'' morning)
         \<lparr>files = {}, calls = []\<rparr>) = Some (Fulfilled (successOutcome ''https://a.test'' desktop)) \<and>
   status (successOutcome ''https://a.test'' desktop) = fulfilled \<and>
   normalAbsolute ''/app/_emp-screenshots'' \<and>
   CHR ''/'' \<notin> set (toString (name desktop)) \<and>
   files (snd (takeSingleScreenshot obliging ''https://a.test'' desktop (dateTimeDir ''/app/_emp-screenshots'' morning)
         \<lparr>files = {}, calls = []\<rparr>)) = {''/app/_emp-screenshots/2025-01-09_0705/a_test_desktop_1280.webp''} \<and>
   calendarTime morning \<and> isTimestamp (currentDateTime morning) \<and>
   currentDateTime morning = ''2025-01-09_0705''"
proof -
  have r: "fst (takeSingleScreenshot obliging ''https://a.test'' desktop (dateTimeDir ''/app/_emp-screenshots'' morning)
         \<lparr>files = {}, calls = []\<rparr>) = Some (Fulfilled (successOutcome ''https://a.test'' desktop))"
    by (simp add: task_fst tryBlock_fst capture_fst obliging_def cond_defs autoScroll_1000)
  have st: "status (successOutcome ''https://a.test'' desktop) = fulfilled"
    by (simp add: successOutcome_def)
  have cal: "calendarTime morning" by (simp add: calendarTime_def morning_def)
  have n: "toString (name desktop) = ''desktop''" "fieldToString (width desktop) = ''1280''"
    by (simp_all add: desktop_def numToString_1280)
  have sep: "CHR ''/'' \<notin> set (toString (name desktop))" by (simp add: n)
  note t = successful_task_artifact [OF r st normalAbsolute_app(2) sep]
  from t [THEN conjunct1]
  have f: "files (snd (takeSingleScreenshot obliging ''https://a.test'' desktop
         (dateTimeDir ''/app/_emp-screenshots'' morning) \<lparr>files = {}, calls = []\<rparr>))
      = {''/app/_emp-screenshots/2025-01-09_0705/a_test_desktop_1280.webp''}"
    by (simp add: currentDateTime_morning urlFilename_a_test n)
  from t cal have ts: "isTimestamp (currentDateTime morning)" by blast
  from r st normalAbsolute_app(2) sep f cal ts currentDateTime_morning show ?thesis by blast
qed

text \<open>
  C8 as worded fails for a device whose name has dot segments in it: \<^verbatim>\<open>path.join\<close>
  normalises the path, so with the name \<^verbatim>\<open>x/../y\<close> the one file the successful task
  leaves is \<open>y_1280.webp\<close> in the folder of the run, without the slug, and there is no
  file at the path the layout gives.
\<close>

theorem dot_segments_in_device_name:
  "fst (takeSingleScreenshot obliging ''https://a.test'' (desktop\<lparr>name := JStr ''x/../y''\<rparr>)
          (dateTimeDir ''/app/_emp-screenshots'' morning) \<lparr>files = {}, calls = []\<rparr>)
     = Some (Fulfilled (successOutcome ''https://a.test'' (desktop\<lparr>name := JStr ''x/../y''\<rparr>))) \<and>
   status (successOutcome ''https://a.test'' (desktop\<lparr>name := JStr ''x/../y''\<rparr>)) = fulfilled \<and>
   dateTimeDir ''/app/_emp-screenshots'' morning = ''/app/_emp-screenshots/2025-01-09_0705'' \<and>
   files (snd (takeSingleScreenshot obliging ''https://a.test'' (desktop\<lparr>name := JStr ''x/../y''\<rparr>)
          (dateTimeDir ''/app/_emp-screenshots'' morning) \<lparr>files = {}, calls = []\<rparr>))
     = {''/app/_emp-screenshots/2025-01-09_0705/y_1280.webp''} \<and>
   ''/app/_emp-screenshots'' @ ''/'' @ currentDateTime morning @ ''/'' @ urlFilename ''https://a.test'' @ ''_'' @
     toString (name (desktop\<lparr>name := JStr ''x/../y''\<rparr>)) @ ''_'' @
     fieldToString (width (desktop\<lparr>name := JStr ''x/../y''\<rparr>)) @ ''.webp''
     = ''/app/_emp-screenshots/2025-01-09_0705/a_test_x/../y_1280.webp'' \<and>
   ''/app/_emp-screenshots/2025-01-09_0705/a_test_x/../y_1280.webp''
     \<notin> files (snd (takeSingleScreenshot obliging ''https://a.test'' (desktop\<lparr>name := JStr ''x/../y''\<rparr>)
          (dateTimeDir ''/app/_emp-screenshots'' morning) \<lparr>files = {}, calls = []\<rparr>))"
proof -
  let ?d = "desktop\<lparr>name := JStr ''x/../y''\<rparr>"
  let ?dir = "dateTimeDir ''/app/_emp-screenshots'' morning"
  let ?s = "\<lparr>files = {}, calls = []\<rparr>"
  have r: "fst (takeSingleScreenshot obliging ''https://a.test'' ?d ?dir ?s)
      = Some (Fulfilled (successOutcome ''https://a.test'' ?d))"
    by (simp add: task_fst tryBlock_fst capture_fst obliging_def cond_defs autoScroll_1000)
  have st: "status (successOutcome ''https://a.test'' ?d) = fulfilled"
    by (simp add: successOutcome_def)
  have dir: "?dir = ''/app/_emp-screenshots/2025-01-09_0705''"
    using dateTimeDir_normal(1) [OF normalAbsolute_app(2), of morning]
    by (simp add: currentDateTime_morning)
  have n: "toString (name ?d) = ''x/../y''" "fieldToString (width ?d) = ''1280''"
    "fieldToString (width desktop) = ''1280''"
    by (simp_all add: desktop_def numToString_1280)
  have png: "screenshotPath ?dir ''https://a.test'' ?d
      = ''/app/_emp-screenshots/2025-01-09_0705/y_1280.png''"
    unfolding dir screenshotPath_def urlFilename_a_test n
    by (simp add: pathJoin_def normalizePath_def normalizeString_def normalizeStep_def)
  have webp: "replacePngSuffix ''/app/_emp-screenshots/2025-01-09_0705/y_1280.png''
      = ''/app/_emp-screenshots/2025-01-09_0705/y_1280.webp''"
    by (simp add: replacePngSuffix_def)
  have ok: "navigated obliging" "scrolled obliging"
    by (simp_all add: obliging_def cond_defs autoScroll_1000)
  have o: "waitForLoadState obliging = Inr ()" "screenshot obliging = Inr ()"
    "sharpToFile obliging = Inr ()" "unlink obliging = Inr ()"
    by (simp_all add: obliging_def)
  have "files (snd (takeSingleScreenshot obliging ''https://a.test'' ?d ?dir ?s))
      = insert (replacePngSuffix (screenshotPath ?dir ''https://a.test'' ?d))
          (insert (screenshotPath ?dir ''https://a.test'' ?d) {})
          - {screenshotPath ?dir ''https://a.test'' ?d}"
    by (simp add: task_files tryBlock_reaches_capture [OF ok] capture_files o)
  then have "files (snd (takeSingleScreenshot obliging ''https://a.test'' ?d ?dir ?s))
      = insert ''/app/_emp-screenshots/2025-01-09_0705/y_1280.webp''
          (insert ''/app/_emp-screenshots/2025-01-09_0705/y_1280.png'' {})
          - {''/app/_emp-screenshots/2025-01-09_0705/y_1280.png''}"
    by (simp only: png webp)
  also have "\<dots> = {''/app/_emp-screenshots/2025-01-09_0705/y_1280.webp''}" by auto
  finally have f: "files (snd (takeSingleScreenshot obliging ''https://a.test'' ?d ?dir ?s))
      = {''/app/_emp-screenshots/2025-01-09_0705/y_1280.webp''}" .
  have l: "''/app/_emp-screenshots'' @ ''/'' @ currentDateTime morning @ ''/'' @
      urlFilename ''https://a.test'' @ ''_'' @ toString (name ?d) @ ''_'' @
      fieldToString (width ?d) @ ''.webp''
      = ''/app/_emp-screenshots/2025-01-09_0705/a_test_x/../y_1280.webp''"
    by (simp add: currentDateTime_morning urlFilename_a_test n)
  have m: "''/app/_emp-screenshots/2025-01-09_0705/a_test_x/../y_1280.webp''
      \<notin> files (snd (takeSingleScreenshot obliging ''https://a.test'' ?d ?dir ?s))"
    by (simp only: f) simp
  from r st dir f l m show ?thesis by blast
qed

section \<open>The orchestrator\<close>

lemmas run_defs = program_def main_def ensureDir_def step_defs screenshotTasks_def
  unhandled_def refuse_def Let_def

lemmas scenario_defs = calm_def blank_def scenario_def desktop_def obliging_def
  urlListRejected_def deviceSizesRejected_def

lemma length_screenshotTasks:
  "length (screenshotTasks w urls devices dir s) = length urls * length devices"
  by (simp add: screenshotTasks_def length_product)

lemma allSettled_all:
  "(\<forall>p \<in> set ps. p \<noteq> None) \<Longrightarrow> \<exists>rs. allSettled ps = Some rs \<and> length rs = length ps"
proof (induction ps)
  case Nil
  then show ?case by simp
next
  case (Cons p ps)
  then obtain r where "p = Some r" by auto
  moreover from Cons obtain rs where "allSettled ps = Some rs" "length rs = length ps" by auto
  ultimately show ?case by simp
qed

lemma allSettled_None: "None \<in> set ps \<Longrightarrow> allSettled ps = None"
  by (induction ps rule: allSettled.induct) (auto split: option.splits)

lemma tally_total: "tally rs (a, b) = (a', b') \<Longrightarrow> a' + b' = a + b + length rs"
  by (induction rs "(a, b)" arbitrary: a b rule: tally.induct) auto

lemma task_settles: "settles m \<Longrightarrow> fst (takeSingleScreenshot m u d dir s) \<noteq> None"
  by (auto simp: settles_def task_fst tryBlock_fst capture_fst navigated_def
      split: sum.splits option.splits completion.splits if_splits)

text \<open>A page whose height is bounded lets the task settle.\<close>

lemma settles_bounded:
  assumes "evaluateScroll m = Inr h" and "\<And>k. h k \<le> B"
  shows "settles m"
proof -
  from autoScroll_bounded [of h B 0 0] assms(2) obtain n where "autoScroll h 0 0 = Some n" by blast
  with assms(1) show ?thesis by (simp add: settles_def)
qed

lemma tasks_settle:
  assumes "\<forall>i < length urls * length devices. settles (task w i)"
  shows "\<forall>t \<in> set (screenshotTasks w urls devices dir s). fst t \<noteq> None"
proof
  fix t assume "t \<in> set (screenshotTasks w urls devices dir s)"
  then obtain i u d where "(i, (u, d)) \<in> set (enumerate 0 (List.product urls devices))"
    and t: "t = takeSingleScreenshot (task w i) u d dir (s\<lparr>calls := []\<rparr>)"
    by (auto simp: screenshotTasks_def)
  then have "i < length urls * length devices"
    by (auto simp: in_set_enumerate_eq length_product)
  with assms have "settles (task w i)" by simp
  with t show "fst t \<noteq> None" by (simp add: task_settles)
qed

lemma startsUp_main:
  assumes "startsUp w"
  shows "\<exists>s1. andThen (ensureDir w dir) (\<lambda>_. await Launch (launch w)) s = (Resolved (), s1)"
  using assms by (auto simp: startsUp_def ensureDir_def step_defs)

lemma startsUp_program:
  assumes "startsUp w"
  shows "\<exists>s0. program dirname now w cfg s = main now w (outputDirOf dirname) cfg s0"
  using assms by (auto simp: startsUp_def program_def ensureDir_def step_defs)

text \<open>
  Every task the orchestrator dispatches is \<open>takeSingleScreenshot\<close> on a url and a
  device of the configuration, in the timestamped directory under the output directory.
\<close>

lemma dispatched_in_run_directory:
  assumes "\<not> urlListRejected (urlList cfg)" and "\<not> deviceSizesRejected (deviceSizes cfg)"
    and "startsUp w"
    and "t \<in> set (dispatched (program dirname now w cfg s))"
  shows "\<exists>i u d fs. u \<in> set (elements (urlList cfg)) \<and> d \<in> set (elements (deviceSizes cfg)) \<and>
           t = takeSingleScreenshot (task w i) u d (dateTimeDir (outputDirOf dirname) now)
                 \<lparr>files = fs, calls = []\<rparr>"
proof -
  let ?urls = "elements (urlList cfg)" and ?devices = "elements (deviceSizes cfg)"
  let ?dir = "dateTimeDir (outputDirOf dirname) now"
  from startsUp_program [OF assms(3)] obtain s0
    where p: "program dirname now w cfg s = main now w (outputDirOf dirname) cfg s0" by blast
  from startsUp_main [OF assms(3)] obtain s1
    where s1: "andThen (ensureDir w ?dir) (\<lambda>_. await Launch (launch w)) s0 = (Resolved (), s1)"
    by blast
  have "dispatched (program dirname now w cfg s) = screenshotTasks w ?urls ?devices ?dir s1"
    using assms(1,2) s1
    by (simp add: p main_def Let_def unhandled_def split: option.splits sum.splits prod.splits)
  with assms(4) obtain i u d where e: "(i, (u, d)) \<in> set (enumerate 0 (List.product ?urls ?devices))"
    and t: "t = takeSingleScreenshot (task w i) u d ?dir (s1\<lparr>calls := []\<rparr>)"
    by (auto simp: screenshotTasks_def)
  from e have "i < length (List.product ?urls ?devices)" "List.product ?urls ?devices ! i = (u, d)"
    by (simp_all add: in_set_enumerate_eq)
  then have "(u, d) \<in> set (List.product ?urls ?devices)" by (metis nth_mem)
  then have "u \<in> set ?urls" "d \<in> set ?devices" by simp_all
  moreover have "s1\<lparr>calls := []\<rparr> = \<lparr>files = files s1, calls = []\<rparr>" by (cases s1) simp
  ultimately show ?thesis using t by metis
qed

text \<open>
  C2, as the code has it. For a configuration that passes validation, once the
  directories exist and the browser is open, exactly U times D tasks are dispatched.
  If the scroll loop of every task that reaches it comes to an end, every task settles,
  the summary is printed with U times D as the total, and the two counts add up to
  U times D, whatever the tasks returned.
\<close>

theorem every_task_tallied:
  assumes "\<not> urlListRejected (urlList cfg)" and "\<not> deviceSizesRejected (deviceSizes cfg)"
    and "startsUp w"
  shows "length (dispatched (program dirname now w cfg s))
           = length (elements (urlList cfg)) * length (elements (deviceSizes cfg)) \<and>
         ((\<forall>i < length (elements (urlList cfg)) * length (elements (deviceSizes cfg)).
              settles (task w i)) \<longrightarrow>
          (\<forall>t \<in> set (dispatched (program dirname now w cfg s)). fst t \<noteq> None) \<and>
          (\<exists>successCount failureCount.
              summary (program dirname now w cfg s)
                = Some (length (elements (urlList cfg)) * length (elements (deviceSizes cfg)),
                        successCount, failureCount) \<and>
              successCount + failureCount
                = length (elements (urlList cfg)) * length (elements (deviceSizes cfg))))"
proof -
  let ?urls = "elements (urlList cfg)" and ?devices = "elements (deviceSizes cfg)"
  let ?dir = "dateTimeDir (outputDirOf dirname) now"
  from startsUp_program [OF assms(3)] obtain s0
    where p: "program dirname now w cfg s = main now w (outputDirOf dirname) cfg s0" by blast
  from startsUp_main [OF assms(3)] obtain s1
    where s1: "andThen (ensureDir w ?dir) (\<lambda>_. await Launch (launch w)) s0 = (Resolved (), s1)"
    by blast
  let ?tasks = "screenshotTasks w ?urls ?devices ?dir s1"
  have d: "dispatched (program dirname now w cfg s) = ?tasks"
    using assms(1,2) s1
    by (simp add: p main_def Let_def unhandled_def split: option.splits sum.splits prod.splits)
  have len: "length ?tasks = length ?urls * length ?devices" by (rule length_screenshotTasks)
  {
    assume "\<forall>i < length ?urls * length ?devices. settles (task w i)"
    then have all: "\<forall>t \<in> set ?tasks. fst t \<noteq> None" by (rule tasks_settle)
    then have "\<forall>p \<in> set (map fst ?tasks). p \<noteq> None" by simp
    from allSettled_all [OF this] obtain results
      where r: "allSettled (map fst ?tasks) = Some results" "length results = length ?tasks"
      by auto
    obtain sc fc where t: "tally results (0, 0) = (sc, fc)" by (cases "tally results (0, 0)")
    from tally_total [OF t] r(2) len have sum: "sc + fc = length ?urls * length ?devices" by simp
    have "summary (program dirname now w cfg s) = Some (length ?urls * length ?devices, sc, fc)"
      using assms(1,2) s1 r(1) t
      by (simp add: p main_def Let_def unhandled_def split: sum.splits)
    with sum all d have "(\<forall>t \<in> set (dispatched (program dirname now w cfg s)). fst t \<noteq> None) \<and>
          (\<exists>successCount failureCount.
              summary (program dirname now w cfg s)
                = Some (length ?urls * length ?devices, successCount, failureCount) \<and>
              successCount + failureCount = length ?urls * length ?devices)"
      by simp
  }
  with d len show ?thesis by simp
qed

lemma scenario_accepted:
  "\<not> urlListRejected (urlList scenario)" "\<not> deviceSizesRejected (deviceSizes scenario)"
  by (simp_all add: scenario_def urlListRejected_def deviceSizesRejected_def desktop_def)

lemma calm_startsUp: "startsUp (calm m)"
  by (simp add: startsUp_def calm_def)

lemma settles_goto_fails: "settles (obliging\<lparr>goto := Inl e\<rparr>)"
  by (simp add: settles_def navigated_def obliging_def)

text \<open>The scenario with a navigation that fails: one task, one outcome, counts that add up to one.\<close>

theorem every_task_tallied_witness:
  "\<not> urlListRejected (urlList scenario) \<and> \<not> deviceSizesRejected (deviceSizes scenario) \<and>
   startsUp (calm (obliging\<lparr>goto := Inl timeoutMessage\<rparr>)) \<and>
   settles (task (calm (obliging\<lparr>goto := Inl timeoutMessage\<rparr>)) 0) \<and>
   length (dispatched (program ''/app'' morning (calm (obliging\<lparr>goto := Inl timeoutMessage\<rparr>)) scenario blank)) = 1 \<and>
   (\<exists>successCount failureCount.
      summary (program ''/app'' morning (calm (obliging\<lparr>goto := Inl timeoutMessage\<rparr>)) scenario blank)
        = Some (1, successCount, failureCount) \<and> successCount + failureCount = 1)"
proof -
  let ?w = "calm (obliging\<lparr>goto := Inl timeoutMessage\<rparr>)"
  have s: "\<forall>i < length (elements (urlList scenario)) * length (elements (deviceSizes scenario)).
      settles (task ?w i)"
    by (simp add: calm_def settles_goto_fails)
  have l: "length (elements (urlList scenario)) * length (elements (deviceSizes scenario)) = 1"
    by (simp add: scenario_def)
  note t = every_task_tallied [OF scenario_accepted
      calm_startsUp [of "obliging\<lparr>goto := Inl timeoutMessage\<rparr>"],
      where dirname = "''/app''" and now = morning and s = blank]
  from t s l scenario_accepted calm_startsUp [of "obliging\<lparr>goto := Inl timeoutMessage\<rparr>"]
  show ?thesis by (simp add: calm_def settles_goto_fails)
qed

text \<open>
  C2 as worded fails on a page that shows a consent control and keeps growing: the one
  task never settles, no summary is printed and the process does not exit.
\<close>

theorem endless_page_hangs_the_run:
  "\<not> urlListRejected (urlList scenario) \<and> \<not> deviceSizesRejected (deviceSizes scenario) \<and>
   map fst (dispatched (program ''/app'' morning (calm (obliging\<lparr>evaluateScroll := Inr endlessPage\<rparr>)) scenario blank))
     = [None] \<and>
   summary (program ''/app'' morning (calm (obliging\<lparr>evaluateScroll := Inr endlessPage\<rparr>)) scenario blank)
     = None \<and>
   exitCode (program ''/app'' morning (calm (obliging\<lparr>evaluateScroll := Inr endlessPage\<rparr>)) scenario blank)
     = None"
  by (simp add: run_defs scenario_defs task_fst tryBlock_fst consentClicked_def autoScroll_endlessPage)

text \<open>
  Whatever the tasks return, a task whose promise is fulfilled is counted as a success:
  when no task hangs and no close throws, the summary shows no failure at all.
\<close>

lemma tally_fulfilled:
  "(\<forall>r \<in> set rs. \<exists>v. r = Fulfilled v) \<Longrightarrow> tally rs (a, b) = (a + length rs, b)"
  by (induction rs "(a, b)" arbitrary: a b rule: tally.induct) auto

lemma allSettled_Some: "allSettled ps = Some rs \<Longrightarrow> ps = map Some rs"
  by (induction ps arbitrary: rs rule: allSettled.induct) (auto split: option.splits)

lemma task_returns:
  assumes "settles m" and "contextClose m = Inr ()"
  shows "\<exists>v. fst (takeSingleScreenshot m u d dir s) = Some (Fulfilled v)"
  using assms
  by (auto simp: settles_def task_fst tryBlock_fst capture_fst navigated_def
      split: sum.splits option.splits completion.splits if_splits)

lemma returned_outcomes_tallied_as_successes:
  assumes "\<not> urlListRejected (urlList cfg)" and "\<not> deviceSizesRejected (deviceSizes cfg)"
    and "startsUp w"
    and ret: "\<forall>i < length (elements (urlList cfg)) * length (elements (deviceSizes cfg)).
           settles (task w i) \<and> contextClose (task w i) = Inr ()"
  shows "summary (program dirname now w cfg s)
           = Some (length (elements (urlList cfg)) * length (elements (deviceSizes cfg)),
                   length (elements (urlList cfg)) * length (elements (deviceSizes cfg)), 0)"
proof -
  let ?urls = "elements (urlList cfg)" and ?devices = "elements (deviceSizes cfg)"
  let ?dir = "dateTimeDir (outputDirOf dirname) now"
  from startsUp_program [OF assms(3)] obtain s0
    where p: "program dirname now w cfg s = main now w (outputDirOf dirname) cfg s0" by blast
  from startsUp_main [OF assms(3)] obtain s1
    where s1: "andThen (ensureDir w ?dir) (\<lambda>_. await Launch (launch w)) s0 = (Resolved (), s1)"
    by blast
  let ?tasks = "screenshotTasks w ?urls ?devices ?dir s1"
  have len: "length ?tasks = length ?urls * length ?devices" by (rule length_screenshotTasks)
  have ful: "\<forall>t \<in> set ?tasks. \<exists>v. fst t = Some (Fulfilled v)"
  proof
    fix t assume "t \<in> set ?tasks"
    then obtain i u d where "(i, (u, d)) \<in> set (enumerate 0 (List.product ?urls ?devices))"
      and t: "t = takeSingleScreenshot (task w i) u d ?dir (s1\<lparr>calls := []\<rparr>)"
      by (auto simp: screenshotTasks_def)
    then have "i < length ?urls * length ?devices"
      by (auto simp: in_set_enumerate_eq length_product)
    with ret have "settles (task w i)" "contextClose (task w i) = Inr ()" by simp_all
    from task_returns [OF this] t show "\<exists>v. fst t = Some (Fulfilled v)" by simp
  qed
  then have "\<forall>p \<in> set (map fst ?tasks). p \<noteq> None" by auto
  from allSettled_all [OF this] obtain results
    where r: "allSettled (map fst ?tasks) = Some results" "length results = length ?tasks"
    by auto
  from allSettled_Some [OF r(1)] have m: "map fst ?tasks = map Some results" .
  have "\<forall>x \<in> set results. \<exists>v. x = Fulfilled v"
  proof
    fix x assume "x \<in> set results"
    then have "Some x \<in> set (map fst ?tasks)" by (simp add: m)
    then obtain t where t: "t \<in> set ?tasks" "fst t = Some x" by auto
    from ful t(1) obtain v where "fst t = Some (Fulfilled v)" by blast
    with t(2) have "x = Fulfilled v" by simp
    then show "\<exists>v. x = Fulfilled v" ..
  qed
  from tally_fulfilled [OF this, of 0 0] r(2) len
  have t: "tally results (0, 0) = (length ?urls * length ?devices, 0)" by simp
  show ?thesis
    using assms(1,2) s1 r(1) t
    by (simp add: p main_def Let_def unhandled_def split: sum.splits)
qed

text \<open>
  C1 at the scenario of the specification with a navigation that throws: the task
  returns its failure record, \<^verbatim>\<open>Promise.allSettled\<close> reports the promise as fulfilled,
  and the summary counts one success and no failure; the exit code is 0.
\<close>

theorem goto_failure_tallied_as_success:
  "map fst (dispatched (program ''/app'' morning (calm (obliging\<lparr>goto := Inl timeoutMessage\<rparr>)) scenario blank))
     = [Some (Fulfilled \<lparr>status = rejected, url = ''https://a.test'', device = JStr ''desktop'',
                         error = Some timeoutMessage\<rparr>)] \<and>
   summary (program ''/app'' morning (calm (obliging\<lparr>goto := Inl timeoutMessage\<rparr>)) scenario blank)
     = Some (1, 1, 0) \<and>
   exitCode (program ''/app'' morning (calm (obliging\<lparr>goto := Inl timeoutMessage\<rparr>)) scenario blank)
     = Some 0"
  by (simp add: run_defs scenario_defs task_fst tryBlock_fst failureOutcome_def)

text \<open>What validation refuses: no list, an empty list, a device without a truthy field.\<close>

lemma refused_cases:
  "urlListRejected (Array [])"
  "urlListRejected (NotAnArray JUndefined)"
  "d \<in> set ds \<Longrightarrow> \<not> (truthy (name d) \<and> truthyNum (width d) \<and> truthyNum (height d))
     \<Longrightarrow> deviceSizesRejected (Array ds)"
  by (auto simp: urlListRejected_def deviceSizesRejected_def list_all_iff)

text \<open>
  C9, as the code has it. With a configuration that validation refuses, the process
  exits with code 1, the browser is never launched, no task is dispatched and the
  timestamped directory is not created: the only calls are the creation of the output
  directory at load time, the message on the error stream and the exit. The output
  directory itself exists afterwards whenever it existed before or its creation went
  through.
\<close>

theorem refused_config_aborts:
  assumes "urlListRejected (urlList cfg) \<or> deviceSizesRejected (deviceSizes cfg)"
  shows "exitCode (program dirname now w cfg \<lparr>files = fs, calls = []\<rparr>) = Some 1 \<and>
         dispatched (program dirname now w cfg \<lparr>files = fs, calls = []\<rparr>) = [] \<and>
         summary (program dirname now w cfg \<lparr>files = fs, calls = []\<rparr>) = None \<and>
         Launch \<notin> set (mainCalls (program dirname now w cfg \<lparr>files = fs, calls = []\<rparr>)) \<and>
         MkdirSync (dateTimeDir (outputDirOf dirname) now)
           \<notin> set (mainCalls (program dirname now w cfg \<lparr>files = fs, calls = []\<rparr>)) \<and>
         set (mainCalls (program dirname now w cfg \<lparr>files = fs, calls = []\<rparr>))
           \<subseteq> {MkdirSync (outputDirOf dirname), ConsoleError [urlListMessage],
                ConsoleError [deviceSizesMessage], ProcessExit 1} \<and>
         dirs (program dirname now w cfg \<lparr>files = fs, calls = []\<rparr>)
           = (if outputDirOf dirname \<in> fs \<or> mkdirSync w (outputDirOf dirname) = Inr ()
              then insert (outputDirOf dirname) fs else fs)"
proof -
  note ne = run_directory_differs [of dirname now]
  from assms ne show ?thesis
    by (cases "mkdirSync w (outputDirOf dirname)")
       (auto simp: run_defs)
qed

text \<open>
  An empty \<open>urlList\<close>, and a device whose width is 0, each started in an empty file
  system.
\<close>

theorem refused_config_aborts_witness:
  "urlListRejected (urlList \<lparr>urlList = Array [], deviceSizes = Array [desktop]\<rparr>) \<and>
   exitCode (program ''/app'' morning (calm obliging) \<lparr>urlList = Array [], deviceSizes = Array [desktop]\<rparr>
      \<lparr>files = {}, calls = []\<rparr>) = Some 1 \<and>
   Launch \<notin> set (mainCalls (program ''/app'' morning (calm obliging)
      \<lparr>urlList = Array [], deviceSizes = Array [desktop]\<rparr> \<lparr>files = {}, calls = []\<rparr>)) \<and>
   dirs (program ''/app'' morning (calm obliging) \<lparr>urlList = Array [], deviceSizes = Array [desktop]\<rparr>
      \<lparr>files = {}, calls = []\<rparr>) = {''/app/_emp-screenshots''} \<and>
   deviceSizesRejected (deviceSizes
      \<lparr>urlList = Array [''https://a.test''], deviceSizes = Array [desktop\<lparr>width := Some 0\<rparr>]\<rparr>) \<and>
   exitCode (program ''/app'' morning (calm obliging)
      \<lparr>urlList = Array [''https://a.test''], deviceSizes = Array [desktop\<lparr>width := Some 0\<rparr>]\<rparr>
      \<lparr>files = {}, calls = []\<rparr>) = Some 1 \<and>
   dispatched (program ''/app'' morning (calm obliging)
      \<lparr>urlList = Array [''https://a.test''], deviceSizes = Array [desktop\<lparr>width := Some 0\<rparr>]\<rparr>
      \<lparr>files = {}, calls = []\<rparr>) = []"
proof -
  let ?c1 = "\<lparr>urlList = Array [], deviceSizes = Array [desktop]\<rparr>"
  let ?c2 = "\<lparr>urlList = Array [''https://a.test''], deviceSizes = Array [desktop\<lparr>width := Some 0\<rparr>]\<rparr>"
  have r1: "urlListRejected (urlList ?c1)"
    by (simp add: urlListRejected_def)
  then have h1: "urlListRejected (urlList ?c1) \<or> deviceSizesRejected (deviceSizes ?c1)" ..
  have r2: "deviceSizesRejected (deviceSizes ?c2)"
    by (simp add: deviceSizesRejected_def desktop_def)
  then have h2: "urlListRejected (urlList ?c2) \<or> deviceSizesRejected (deviceSizes ?c2)" ..
  from refused_config_aborts [OF h1, of "''/app''" morning "calm obliging" "{}"]
    refused_config_aborts [OF h2, of "''/app''" morning "calm obliging" "{}"] r1 r2
  show ?thesis by (simp add: calm_def outputDirOf_app)
qed

text \<open>
  C9 as worded fails there: the output directory did not exist, validation refuses the
  configuration, and the directory exists afterwards; \<^verbatim>\<open>mkdirSync\<close> is the first call.
\<close>

theorem output_directory_made_before_validation:
  "urlListRejected (urlList \<lparr>urlList = Array [], deviceSizes = Array [desktop]\<rparr>) \<and>
   outputDirOf ''/app'' \<notin> files blank \<and>
   outputDirOf ''/app'' \<in> dirs (program ''/app'' morning (calm obliging)
      \<lparr>urlList = Array [], deviceSizes = Array [desktop]\<rparr> blank) \<and>
   mainCalls (program ''/app'' morning (calm obliging)
      \<lparr>urlList = Array [], deviceSizes = Array [desktop]\<rparr> blank)
     = [MkdirSync (outputDirOf ''/app''), ConsoleError [urlListMessage], ProcessExit 1]"
  by (simp add: run_defs calm_def blank_def urlListRejected_def)

end
